(* ===== verification/Prelude.thy ===== *)
theory Prelude
  imports Main "HOL-Library.Word"
begin

text \<open>
  Shared vocabulary of the bpa development: the machine types of \<^verbatim>\<open>src/bpa.c\<close>
  (\<^verbatim>\<open>uint32_t\<close> as \<open>u32\<close>, \<^verbatim>\<open>size_t\<close> as \<open>u64\<close>), the byte-addressed memory in which
  slices live, the C library's \<^verbatim>\<open>memmove\<close> as a function on that memory, and the
  lemmas every component uses to move between 32-bit offset arithmetic and natural
  numbers when the arithmetic provably does not wrap.
\<close>

named_theorems word_nowrap "unat equations for 32-bit arithmetic that does not wrap"
named_theorems mem_frame "reads of the memory after a write or a move"

type_synonym u16 = "16 word"
type_synonym u32 = "32 word"
type_synonym u64 = "64 word"

text \<open>
  The memory of the backing buffer, addressed by byte offsets from the start of the
  buffer (the address of \<^verbatim>\<open>struct bpa_heap\<close>). Every field the allocator reads or
  writes is a 4-byte value at a 4-aligned offset, so one cell per such offset suffices.
\<close>

type_synonym memory = "nat \<Rightarrow> u32"

text \<open>
  \<^verbatim>\<open>memmove(dst, src, n)\<close>: the \<open>n\<close> bytes at \<open>dst\<close> become the \<open>n\<close> bytes that were at
  \<open>src\<close> before the call, whatever the overlap; nothing else changes.
\<close>

definition memmove :: "memory \<Rightarrow> nat \<Rightarrow> nat \<Rightarrow> nat \<Rightarrow> memory" where
  "memmove m dst src n = (\<lambda>a. if dst \<le> a \<and> a < dst + n then m (a - dst + src) else m a)"

subsection \<open>Memory frame lemmas\<close>

lemma memmove_outside [mem_frame]:
  "a < dst \<or> dst + n \<le> a \<Longrightarrow> memmove m dst src n a = m a"
  by (auto simp: memmove_def)

lemma memmove_inside [mem_frame]:
  "dst \<le> a \<Longrightarrow> a < dst + n \<Longrightarrow> memmove m dst src n a = m (a - dst + src)"
  by (simp add: memmove_def)

lemma fun_upd_other [mem_frame]: "a \<noteq> b \<Longrightarrow> (m(b := v)) a = m a"
  by simp

subsection \<open>Offset arithmetic that does not wrap\<close>

text \<open>
  The allocator measures the heap in 8-byte units held in \<^verbatim>\<open>pointer_t\<close>
  (\<^verbatim>\<open>uint32_t\<close>) and turns a unit offset into a byte offset by the 32-bit product
  \<^verbatim>\<open>off * ALIGN_SIZE\<close>. Below \<open>2 ^ 29\<close> units the product is exact.
\<close>

lemma unat_times8 [word_nowrap]:
  "unat (x :: u32) < 2 ^ 29 \<Longrightarrow> unat (x * 8) = 8 * unat x"
  using unat_mult_lem [of x 8] by simp

lemma unat_plus_nowrap [word_nowrap]:
  "unat (x :: u32) + unat y < 2 ^ 32 \<Longrightarrow> unat (x + y) = unat x + unat y"
  using unat_add_lem [of x y] by simp

lemma unat_minus_nowrap [word_nowrap]:
  "(y :: u32) \<le> x \<Longrightarrow> unat (x - y) = unat x - unat y"
  by (rule unat_sub)

lemma unat_ucast_u16:
  "unat (ucast (x :: u32) :: u16) = unat x mod 65536"
  by (simp add: unsigned_ucast_eq take_bit_eq_mod)

lemma unat_of_nat_u32 [word_nowrap]:
  "n < 2 ^ 32 \<Longrightarrow> unat (of_nat n :: u32) = n"
  by (simp add: unat_of_nat)

lemma u32_le_unat: "((x :: u32) \<le> y) = (unat x \<le> unat y)"
  by (rule word_le_nat_alt)

lemma u32_less_unat: "((x :: u32) < y) = (unat x < unat y)"
  by (rule word_less_nat_alt)

lemma u32_eq_unat: "((x :: u32) = y) = (unat x = unat y)"
  by (rule word_unat_eq_iff)

lemmas u32_unat_conv = u32_le_unat u32_less_unat

lemma u32_zero_sless_one [simp]: "(0 :: u32) <s 1"
  by (simp add: word_sless_alt)

subsection \<open>Option results\<close>

text \<open>
  Loops of the source that may not terminate on a corrupted heap are modelled as
  \<^theory_text>\<open>partial_function (option)\<close>: \<open>None\<close> is "does not return".
\<close>

lemma map_option_eq_Some_iff:
  "(map_option f x = Some y) = (\<exists>z. x = Some z \<and> y = f z)"
  by auto

end
