(* ===== verification/Bpa_Heap.thy ===== *)
theory Bpa_Heap
  imports Prelude
begin

text \<open>
  The arena state of \<^verbatim>\<open>src/bpa.c\<close>: the constants at the top of the file, the header
  \<^verbatim>\<open>struct bpa_heap\<close> as the record \<open>bpa_heap\<close>, the inline slice record
  \<^verbatim>\<open>struct slice\<close> and its trailing id as reads of the memory (\<^verbatim>\<open>HEAP_SLICE\<close>,
  \<^verbatim>\<open>SLICE_ID\<close>), and the well-formedness invariant \<open>heap_wf\<close>: slices tile the region
  from the end of the header to the frontier, the sweep cursor sits on a slice boundary,
  and the handle table and the slices' ids agree. The lemmas on \<open>chain\<close> (the tiling)
  are the library the operations' proofs are built on.
\<close>

section \<open>Constants and layout\<close>

definition ALIGN_SIZE :: "'a :: numeral" where
  "ALIGN_SIZE = 8"

definition COLLECT_STEP_LENGTH :: u32 where
  "COLLECT_STEP_LENGTH = 0x1000"

definition MAX_SLOT :: nat where
  "MAX_SLOT = 0x10000"

text \<open>\<^verbatim>\<open>sizeof(struct bpa_heap)\<close>: four 4-byte fields and the slot array.\<close>

definition sizeof_bpa_heap :: nat where
  "sizeof_bpa_heap = 4 + 4 + 4 + 4 + 4 * MAX_SLOT"

definition HEAP_HEADER_SIZE :: nat where
  "HEAP_HEADER_SIZE = (sizeof_bpa_heap + ALIGN_SIZE - 1) div ALIGN_SIZE"

lemma HEAP_HEADER_SIZE_val [simp]: "HEAP_HEADER_SIZE = 32770"
  by (simp add: HEAP_HEADER_SIZE_def sizeof_bpa_heap_def MAX_SLOT_def ALIGN_SIZE_def)

lemma ALIGN_SIZE_u32 [simp]: "(ALIGN_SIZE :: u32) = 8"
  and ALIGN_SIZE_u64 [simp]: "(ALIGN_SIZE :: u64) = 8"
  and ALIGN_SIZE_nat [simp]: "(ALIGN_SIZE :: nat) = 8"
  by (simp_all add: ALIGN_SIZE_def)

lemma COLLECT_STEP_LENGTH_val [simp]: "COLLECT_STEP_LENGTH = 0x1000"
  by (simp add: COLLECT_STEP_LENGTH_def)

section \<open>The header and the handle table\<close>

text \<open>
  \<^verbatim>\<open>struct bpa_heap { pointer_t sz, offset, collect; id cid; pointer_t slot[MAX_SLOT]; }\<close>
  followed in the same buffer by the slices. The slot array is indexed by
  \<^verbatim>\<open>uid % MAX_SLOT\<close>, a 16-bit value; \<open>heap_mem\<close> is the rest of the buffer.
\<close>

record bpa_heap =
  heap_sz :: u32
  heap_offset :: u32
  heap_collect :: u32
  heap_cid :: u32
  heap_slot :: "u16 \<Rightarrow> u32"
  heap_mem :: memory

definition slot_index :: "u32 \<Rightarrow> u16" where
  "slot_index uid = of_nat (unat uid mod MAX_SLOT)"

lemma slot_index_ucast: "slot_index uid = ucast uid"
proof -
  have "unat (slot_index uid) = unat (ucast uid :: u16)"
    by (simp add: slot_index_def MAX_SLOT_def unat_ucast_u16 unat_of_nat)
  then show ?thesis by (simp add: word_unat_eq_iff)
qed

datatype bpa_error =
    ReleaseUnknown   \<comment> \<open>\<^verbatim>\<open>bpa_release\<close>: \<^verbatim>\<open>assert(0)\<close> on an empty slot\<close>
  | ReleaseStale     \<comment> \<open>\<^verbatim>\<open>bpa_release\<close>: \<^verbatim>\<open>assert(0)\<close> on an id mismatch\<close>
  | ReleaseUnpinned  \<comment> \<open>\<^verbatim>\<open>bpa_release\<close>: \<^verbatim>\<open>assert(s->ref > 0)\<close>\<close>
  | GetIdOutOfRange  \<comment> \<open>\<^verbatim>\<open>bpa_get_id\<close>: the bounds assertion\<close>
  | CollectIdle      \<comment> \<open>\<^verbatim>\<open>collect\<close>: \<^verbatim>\<open>assert(p)\<close>\<close>

section \<open>Slices\<close>

text \<open>
  \<^verbatim>\<open>HEAP_SLICE(H, off)\<close> is \<^verbatim>\<open>(char *)H + off * ALIGN_SIZE\<close>; the product is computed
  in \<^verbatim>\<open>pointer_t\<close> arithmetic and wraps at \<open>2 ^ 32\<close>. A slice is
  \<^verbatim>\<open>struct slice { int ref; pointer_t sz; }\<close> at that address, and
  \<^verbatim>\<open>SLICE_ID(S)\<close> is the last 4 bytes of its \<open>sz\<close> units.
\<close>

definition HEAP_SLICE :: "u32 \<Rightarrow> nat" where
  "HEAP_SLICE off = unat (off * ALIGN_SIZE)"

definition slice_ref :: "memory \<Rightarrow> nat \<Rightarrow> u32" where
  "slice_ref m s = m s"

definition slice_sz :: "memory \<Rightarrow> nat \<Rightarrow> u32" where
  "slice_sz m s = m (s + 4)"

definition SLICE_ID :: "memory \<Rightarrow> nat \<Rightarrow> nat" where
  "SLICE_ID m s = s + unat (slice_sz m s * ALIGN_SIZE) - 4"

definition slice_id :: "memory \<Rightarrow> nat \<Rightarrow> u32" where
  "slice_id m s = m (SLICE_ID m s)"

lemmas slice_defs = slice_ref_def slice_sz_def SLICE_ID_def slice_id_def

text \<open>The slice at unit offset \<open>q\<close>, read through natural-number offsets.\<close>

abbreviation obj_ref :: "memory \<Rightarrow> nat \<Rightarrow> u32" where
  "obj_ref m q \<equiv> slice_ref m (8 * q)"

abbreviation obj_sz :: "memory \<Rightarrow> nat \<Rightarrow> nat" where
  "obj_sz m q \<equiv> unat (slice_sz m (8 * q))"

abbreviation obj_id :: "memory \<Rightarrow> nat \<Rightarrow> u32" where
  "obj_id m q \<equiv> slice_id m (8 * q)"

lemma HEAP_SLICE_nowrap [word_nowrap]:
  "unat off < 2 ^ 29 \<Longrightarrow> HEAP_SLICE off = 8 * unat off"
  by (simp add: HEAP_SLICE_def unat_times8)

lemma SLICE_ID_unit:
  "obj_sz m q < 2 ^ 29 \<Longrightarrow> SLICE_ID m (8 * q) = 8 * (q + obj_sz m q) - 4"
  by (simp add: SLICE_ID_def unat_times8)

section \<open>The tiling of the region by slices\<close>

text \<open>
  \<open>chain m a b\<close> walks the slices from unit \<open>a\<close> by their sizes and returns their
  offsets when they end exactly at \<open>b\<close>; every slice has at least two units (its
  header and the unit holding its id). This is the walk of \<^verbatim>\<open>bpa_dump\<close> and of the
  sweep in \<^verbatim>\<open>collect\<close>.
\<close>

function chain :: "memory \<Rightarrow> nat \<Rightarrow> nat \<Rightarrow> nat list option" where
  "chain m a b =
     (if b \<le> a then (if a = b then Some [] else None)
      else if obj_sz m a < 2 then None
      else map_option (Cons a) (chain m (a + obj_sz m a) b))"
  by pat_completeness auto
termination
  by (relation "measure (\<lambda>(m, a, b). b - a)") auto

declare chain.simps [simp del]

lemma chain_same [simp]: "chain m a a = Some []"
  by (simp add: chain.simps)

lemma chain_step:
  "a < b \<Longrightarrow> 2 \<le> obj_sz m a \<Longrightarrow>
   chain m a b = map_option (Cons a) (chain m (a + obj_sz m a) b)"
  by (subst chain.simps) simp

lemma chain_Some_cases:
  assumes "chain m a b = Some os"
  shows "(a = b \<and> os = []) \<or>
         (a < b \<and> 2 \<le> obj_sz m a \<and>
          (\<exists>os'. os = a # os' \<and> chain m (a + obj_sz m a) b = Some os'))"
  using assms by (subst (asm) chain.simps) (auto split: if_splits)

lemma chain_append:
  "chain m a b = Some xs \<Longrightarrow> chain m b c = Some ys \<Longrightarrow> chain m a c = Some (xs @ ys)"
proof (induction m a b arbitrary: xs rule: chain.induct)
  case (1 m a b)
  from "1.prems"(1) consider "a = b" "xs = []"
    | os' where "a < b" "2 \<le> obj_sz m a" "xs = a # os'" "chain m (a + obj_sz m a) b = Some os'"
    by (blast dest: chain_Some_cases)
  then show ?case
  proof cases
    case 1
    with "1.prems" show ?thesis by simp
  next
    case 2
    have "a < c"
      using "1.prems"(2) \<open>a < b\<close> chain_Some_cases by fastforce
    with 2 "1.IH" "1.prems"(2) show ?thesis
      by (simp add: chain_step)
  qed
qed

lemma chain_bounds:
  "chain m a b = Some os \<Longrightarrow> q \<in> set os \<Longrightarrow>
   a \<le> q \<and> 2 \<le> obj_sz m q \<and> q + obj_sz m q \<le> b"
proof (induction m a b arbitrary: os rule: chain.induct)
  case (1 m a b)
  from chain_Some_cases [OF "1.prems"(1)] show ?case
  proof (elim disjE exE conjE)
    fix os'
    assume "a < b" "2 \<le> obj_sz m a" "os = a # os'" "chain m (a + obj_sz m a) b = Some os'"
    moreover have "a + obj_sz m a \<le> b"
      using \<open>chain m (a + obj_sz m a) b = Some os'\<close> chain_Some_cases by fastforce
    ultimately show ?thesis
      using "1.IH" "1.prems"(2) by fastforce
  qed (use "1.prems" in simp)
qed

lemma chain_le: "chain m a b = Some os \<Longrightarrow> a \<le> b"
  by (induction m a b arbitrary: os rule: chain.induct) (auto dest: chain_Some_cases)

lemma chain_sorted: "chain m a b = Some os \<Longrightarrow> sorted_wrt (<) os"
proof (induction m a b arbitrary: os rule: chain.induct)
  case (1 m a b)
  from chain_Some_cases [OF "1.prems"] show ?case
  proof (elim disjE exE conjE)
    fix os'
    assume "a < b" "2 \<le> obj_sz m a" "os = a # os'"
      and rest: "chain m (a + obj_sz m a) b = Some os'"
    then show ?thesis
      using "1.IH" [OF _ _ rest] chain_bounds [OF rest] by fastforce
  qed simp
qed

text \<open>
  The walk reads only the size fields, at byte offsets \<open>4\<close> modulo \<open>8\<close>, inside the
  region it covers. Writes to reference counts (offset \<open>0\<close> modulo \<open>8\<close>) and writes
  outside the region leave it unchanged.
\<close>

lemma chain_frame:
  "(\<And>x. 8 * a \<le> x \<Longrightarrow> x < 8 * b \<Longrightarrow> x mod 8 = 4 \<Longrightarrow> m' x = m x) \<Longrightarrow>
   chain m' a b = chain m a b"
proof (induction m a b rule: chain.induct)
  case (1 m a b)
  show ?case
  proof (cases "a < b")
    case True
    then have sz: "obj_sz m' a = obj_sz m a"
      using "1.prems" by (simp add: slice_sz_def)
    show ?thesis
    proof (cases "obj_sz m a < 2")
      case True
      with sz \<open>a < b\<close> show ?thesis by (simp add: chain.simps [of _ a b])
    next
      case False
      then have "chain m' (a + obj_sz m a) b = chain m (a + obj_sz m a) b"
        using \<open>a < b\<close> "1.prems" by (intro "1.IH") auto
      with False sz \<open>a < b\<close> show ?thesis by (simp add: chain_step)
    qed
  next
    case False
    then show ?thesis by (simp add: chain.simps [of _ a b])
  qed
qed

lemma obj_frame:
  assumes "\<And>x. 8 * q \<le> x \<Longrightarrow> x < 8 * (q + obj_sz m q) \<Longrightarrow> x mod 8 = 4 \<Longrightarrow> m' x = m x"
    and "2 \<le> obj_sz m q" "obj_sz m q < 2 ^ 29"
  shows "obj_sz m' q = obj_sz m q" "obj_id m' q = obj_id m q"
proof -
  show sz: "obj_sz m' q = obj_sz m q"
    using assms by (simp add: slice_sz_def)
  let ?x = "8 * (q + obj_sz m q) - 4"
  have x: "?x = 8 * (q + obj_sz m q - 1) + 4"
    using assms(2) by arith
  have "?x < 8 * (q + obj_sz m q)" "8 * q \<le> ?x"
    using assms(2) by arith+
  moreover have "?x mod 8 = 4"
    unfolding x by simp
  ultimately have "m' ?x = m ?x"
    using assms(1) by blast
  with assms(3) sz show "obj_id m' q = obj_id m q"
    by (simp add: slice_id_def SLICE_ID_unit)
qed

lemma chain_objs_frame:
  assumes "chain m a b = Some os" "b < 2 ^ 29" "q \<in> set os"
    and "\<And>x. 8 * a \<le> x \<Longrightarrow> x < 8 * b \<Longrightarrow> x mod 8 = 4 \<Longrightarrow> m' x = m x"
  shows "obj_sz m' q = obj_sz m q" "obj_id m' q = obj_id m q"
proof -
  from chain_bounds [OF assms(1,3)]
  have "a \<le> q" "2 \<le> obj_sz m q" "q + obj_sz m q \<le> b" by auto
  with assms(2,4) show "obj_sz m' q = obj_sz m q" "obj_id m' q = obj_id m q"
    by (auto intro!: obj_frame)
qed

lemma chain_single:
  "2 \<le> obj_sz m a \<Longrightarrow> chain m a (a + obj_sz m a) = Some [a]"
  by (simp add: chain_step)

lemma chain_snoc:
  "chain m a b = Some xs \<Longrightarrow> 2 \<le> obj_sz m b \<Longrightarrow>
   chain m a (b + obj_sz m b) = Some (xs @ [b])"
  using chain_single [of m b] by (blast intro: chain_append)

text \<open>A slice boundary splits a run of slices into the run before it and the run from it.\<close>

lemma chain_split:
  "chain m a b = Some os \<Longrightarrow> c \<in> set os \<Longrightarrow>
   \<exists>xs ys. chain m a c = Some xs \<and> chain m c b = Some ys \<and> os = xs @ ys"
proof (induction m a b arbitrary: os rule: chain.induct)
  case (1 m a b)
  from chain_Some_cases [OF "1.prems"(1)] "1.prems"(2) obtain os' where
    os: "a < b" "2 \<le> obj_sz m a" "os = a # os'" "chain m (a + obj_sz m a) b = Some os'"
    by auto
  show ?case
  proof (cases "c = a")
    case True
    with "1.prems"(1) show ?thesis by (intro exI [of _ "[]"] exI [of _ os]) simp
  next
    case False
    with os(3) "1.prems"(2) have c: "c \<in> set os'" by simp
    from "1.IH" [OF _ _ os(4) c] os(1,2) obtain xs ys where
      IH: "chain m (a + obj_sz m a) c = Some xs" "chain m c b = Some ys" "os' = xs @ ys"
      by auto
    have "a < c" using chain_bounds [OF os(4) c] os(2) by simp
    with IH os show ?thesis
      by (intro exI [of _ "a # xs"] exI [of _ ys]) (simp add: chain_step)
  qed
qed

text \<open>The last slice of a run ends where the run ends.\<close>

lemma chain_last: "chain m a b = Some (xs @ [q]) \<Longrightarrow> q + obj_sz m q = b"
proof (induction m a b arbitrary: xs rule: chain.induct)
  case (1 m a b)
  from chain_Some_cases [OF "1.prems"] obtain os' where
    os: "a < b" "2 \<le> obj_sz m a" "xs @ [q] = a # os'" "chain m (a + obj_sz m a) b = Some os'"
    by auto
  show ?case
  proof (cases xs)
    case Nil
    with os(3,4) have "chain m (a + obj_sz m a) b = Some []" "q = a" by simp_all
    with chain_Some_cases [OF this(1)] show ?thesis by auto
  next
    case (Cons x xs')
    with os(3) have "os' = xs' @ [q]" by simp
    with os show ?thesis by (intro "1.IH") simp_all
  qed
qed

section \<open>Well-formedness\<close>

text \<open>
  The slices of a heap: the walk from the end of the header to the frontier
  \<^verbatim>\<open>H->offset\<close>.
\<close>

definition slices :: "bpa_heap \<Rightarrow> nat list option" where
  "slices H = chain (heap_mem H) HEAP_HEADER_SIZE (unat (heap_offset H))"

text \<open>
  The handle table agrees with the slices: a used slot holds the offset of a slice
  whose id is nonzero and maps back to that slot, and every slice with a nonzero id is
  the one its slot points to. Ids of distinct slices are therefore distinct, even
  modulo \<^verbatim>\<open>MAX_SLOT\<close>.
\<close>

definition slots_ok :: "(u16 \<Rightarrow> u32) \<Rightarrow> memory \<Rightarrow> nat list \<Rightarrow> bool" where
  "slots_ok slot m os \<longleftrightarrow>
     (\<forall>k. slot k \<noteq> 0 \<longrightarrow> unat (slot k) \<in> set os \<and> obj_id m (unat (slot k)) \<noteq> 0 \<and>
          slot_index (obj_id m (unat (slot k))) = k) \<and>
     (\<forall>q \<in> set os. obj_id m q \<noteq> 0 \<longrightarrow> slot (slot_index (obj_id m q)) = of_nat q)"

text \<open>Placeholder slices (id \<open>0\<close>) written by a paused sweep are never pinned.\<close>

definition placeholders_dead :: "memory \<Rightarrow> nat list \<Rightarrow> bool" where
  "placeholders_dead m os \<longleftrightarrow> (\<forall>q \<in> set os. obj_id m q = 0 \<longrightarrow> obj_ref m q = 0)"

text \<open>
  The sweep cursor \<^verbatim>\<open>H->collect\<close> is \<open>0\<close> (idle) or a slice boundary; it equals the
  frontier only when a cycle was started by \<^verbatim>\<open>bpa_collect\<close> with no increment run.
\<close>

definition cursor_ok :: "bpa_heap \<Rightarrow> nat list \<Rightarrow> bool" where
  "cursor_ok H os \<longleftrightarrow>
     heap_collect H = 0 \<or> unat (heap_collect H) \<in> set os \<or> heap_collect H = heap_offset H"

definition heap_wf :: "bpa_heap \<Rightarrow> bool" where
  "heap_wf H \<longleftrightarrow>
     unat (heap_sz H) < 2 ^ 29 \<and> HEAP_HEADER_SIZE \<le> unat (heap_offset H) \<and>
     heap_offset H \<le> heap_sz H \<and>
     (case slices H of
        None \<Rightarrow> False
      | Some os \<Rightarrow> cursor_ok H os \<and> slots_ok (heap_slot H) (heap_mem H) os \<and>
                   placeholders_dead (heap_mem H) os)"

lemma heap_wfD:
  assumes "heap_wf H"
  obtains os where "slices H = Some os" "unat (heap_sz H) < 2 ^ 29"
    "HEAP_HEADER_SIZE \<le> unat (heap_offset H)" "unat (heap_offset H) \<le> unat (heap_sz H)"
    "cursor_ok H os" "slots_ok (heap_slot H) (heap_mem H) os"
    "placeholders_dead (heap_mem H) os"
  using assms by (auto simp: heap_wf_def u32_le_unat split: option.splits)

lemma heap_wfI:
  "slices H = Some os \<Longrightarrow> unat (heap_sz H) < 2 ^ 29 \<Longrightarrow>
   HEAP_HEADER_SIZE \<le> unat (heap_offset H) \<Longrightarrow> unat (heap_offset H) \<le> unat (heap_sz H) \<Longrightarrow>
   cursor_ok H os \<Longrightarrow> slots_ok (heap_slot H) (heap_mem H) os \<Longrightarrow>
   placeholders_dead (heap_mem H) os \<Longrightarrow> heap_wf H"
  by (simp add: heap_wf_def u32_le_unat)

lemma slots_ok_cong:
  "(\<And>q. q \<in> set os \<Longrightarrow> obj_id m' q = obj_id m q) \<Longrightarrow>
   slots_ok slot m' os = slots_ok slot m os"
  unfolding slots_ok_def by (intro conj_cong all_cong imp_cong ball_cong refl; auto)

lemma placeholders_dead_cong:
  "(\<And>q. q \<in> set os \<Longrightarrow> obj_id m' q = obj_id m q \<and> obj_ref m' q = obj_ref m q) \<Longrightarrow>
   placeholders_dead m' os = placeholders_dead m os"
  by (simp add: placeholders_dead_def)

text \<open>Writes at or above byte \<open>8 * b\<close> leave the slices below \<open>b\<close> as they were.\<close>

lemma chain_below_frame:
  assumes "chain m a b = Some os" "b < 2 ^ 29" "\<And>x. x < 8 * b \<Longrightarrow> m' x = m x"
  shows "chain m' a b = Some os"
    and "q \<in> set os \<Longrightarrow> obj_id m' q = obj_id m q \<and> obj_ref m' q = obj_ref m q \<and>
                          obj_sz m' q = obj_sz m q"
proof -
  have fr: "\<And>x. 8 * a \<le> x \<Longrightarrow> x < 8 * b \<Longrightarrow> x mod 8 = 4 \<Longrightarrow> m' x = m x"
    using assms(3) by blast
  have "chain m' a b = chain m a b"
    by (rule chain_frame) (rule fr)
  with assms(1) show "chain m' a b = Some os" by simp
  assume q: "q \<in> set os"
  have b: "q < b"
    using chain_bounds [OF assms(1) q] by simp
  have "obj_sz m' q = obj_sz m q" "obj_id m' q = obj_id m q"
    using chain_objs_frame [OF assms(1,2) q fr] by blast+
  moreover have "obj_ref m' q = obj_ref m q"
    using b assms(3) [of "8 * q"] by (simp add: slice_ref_def)
  ultimately show "obj_id m' q = obj_id m q \<and> obj_ref m' q = obj_ref m q \<and>
                   obj_sz m' q = obj_sz m q"
    by blast
qed

lemma heap_wf_cid [simp]: "heap_wf (H\<lparr>heap_cid := c\<rparr>) = heap_wf H"
  by (simp add: heap_wf_def slices_def cursor_ok_def split: option.split)

text \<open>Offsets of slices of a well-formed heap are addressable without wrap-around.\<close>

lemma slices_bounds:
  assumes "heap_wf H" "slices H = Some os" "q \<in> set os"
  shows "HEAP_HEADER_SIZE \<le> q" "2 \<le> obj_sz (heap_mem H) q"
    "q + obj_sz (heap_mem H) q \<le> unat (heap_offset H)" "q < 2 ^ 29"
    "q + obj_sz (heap_mem H) q < 2 ^ 29"
proof -
  from assms(1) obtain os' where "slices H = Some os'"
    "unat (heap_offset H) \<le> unat (heap_sz H)" "unat (heap_sz H) < 2 ^ 29"
    by (rule heap_wfD)
  moreover note chain_bounds [OF assms(2) [unfolded slices_def] assms(3)]
  ultimately show "HEAP_HEADER_SIZE \<le> q" "2 \<le> obj_sz (heap_mem H) q"
    "q + obj_sz (heap_mem H) q \<le> unat (heap_offset H)" "q < 2 ^ 29"
    "q + obj_sz (heap_mem H) q < 2 ^ 29"
    by auto
qed

lemma of_nat_u32_inj:
  assumes "a < 2 ^ 32" "b < 2 ^ 32"
  shows "((of_nat a :: u32) = of_nat b) = (a = b)"
proof
  assume "(of_nat a :: u32) = of_nat b"
  then have "unat (of_nat a :: u32) = unat (of_nat b :: u32)" by simp
  with assms show "a = b" by (simp add: unat_of_nat_u32)
qed simp

text \<open>
  A store to a reference count (a byte offset that is \<open>0\<close> modulo \<open>8\<close>) changes no size
  and no id, so it keeps the tiling and the handle table's agreement.
\<close>

lemma chain_ref_write:
  "a mod 8 = 0 \<Longrightarrow> chain (m(a := v)) x y = chain m x y"
  by (rule chain_frame) auto

lemma obj_ref_write:
  assumes "a mod 8 = 0" "2 \<le> obj_sz m q" "obj_sz m q < 2 ^ 29"
  shows "obj_sz (m(a := v)) q = obj_sz m q" "obj_id (m(a := v)) q = obj_id m q"
proof -
  have "\<And>x. x mod 8 = 4 \<Longrightarrow> (m(a := v)) x = m x"
    using assms(1) by auto
  then show "obj_sz (m(a := v)) q = obj_sz m q" "obj_id (m(a := v)) q = obj_id m q"
    using obj_frame [where m' = "m(a := v)" and m = m and q = q] assms(2,3) by blast+
qed

lemma heap_wf_ref_write:
  assumes wf: "heap_wf H" and os: "slices H = Some os" and q: "q \<in> set os"
    and nz: "obj_id (heap_mem H) q \<noteq> 0"
  shows "heap_wf (H\<lparr>heap_mem := (heap_mem H)(8 * q := v)\<rparr>)"
proof -
  let ?m = "heap_mem H" and ?H = "H\<lparr>heap_mem := (heap_mem H)(8 * q := v)\<rparr>"
  from wf obtain os' where "slices H = Some os'" "unat (heap_sz H) < 2 ^ 29"
    "HEAP_HEADER_SIZE \<le> unat (heap_offset H)" "unat (heap_offset H) \<le> unat (heap_sz H)"
    "cursor_ok H os'" "slots_ok (heap_slot H) ?m os'" "placeholders_dead ?m os'"
    by (rule heap_wfD)
  with os have facts: "unat (heap_sz H) < 2 ^ 29"
    "HEAP_HEADER_SIZE \<le> unat (heap_offset H)" "unat (heap_offset H) \<le> unat (heap_sz H)"
    "cursor_ok H os" "slots_ok (heap_slot H) ?m os" "placeholders_dead ?m os"
    by simp_all
  have sl: "slices ?H = Some os"
    using os by (simp add: slices_def chain_ref_write)
  have ids: "obj_id ((heap_mem H)(8 * q := v)) p = obj_id ?m p" if "p \<in> set os" for p
    using slices_bounds [OF wf os that] by (intro obj_ref_write) simp_all
  have refs: "obj_ref ((heap_mem H)(8 * q := v)) p = obj_ref ?m p" if "p \<in> set os" "p \<noteq> q" for p
    using that by (simp add: slice_ref_def)
  have "placeholders_dead ((heap_mem H)(8 * q := v)) os"
    unfolding placeholders_dead_def
  proof (intro ballI impI)
    fix p
    assume p: "p \<in> set os" and z: "obj_id ((heap_mem H)(8 * q := v)) p = 0"
    have idp: "obj_id ?m p = 0"
      using ids [OF p] z by simp
    then have "p \<noteq> q"
      using nz by auto
    moreover have "obj_ref ?m p = 0"
      using facts(6) p idp unfolding placeholders_dead_def by blast
    ultimately show "obj_ref ((heap_mem H)(8 * q := v)) p = 0"
      using refs [OF p] by simp
  qed
  moreover have "slots_ok (heap_slot H) ((heap_mem H)(8 * q := v)) os"
    using facts(5) slots_ok_cong [of os "(heap_mem H)(8 * q := v)" ?m] ids by blast
  moreover have "cursor_ok ?H os"
    using facts(4) by (simp add: cursor_ok_def)
  ultimately show ?thesis
    using facts(1-3) by (intro heap_wfI [OF sl]) simp_all
qed

end
