(* ===== verification/Bpa_Alloc.thy ===== *)
theory Bpa_Alloc
  imports Bpa_Heap
begin

text \<open>
  Handle issuance and allocation: \<^verbatim>\<open>alloc_slot\<close> and \<^verbatim>\<open>bpa_create\<close> of
  \<^verbatim>\<open>src/bpa.c\<close>. \<open>alloc_slot_loop\<close> is the probing \<^verbatim>\<open>for\<close> loop, counted down by the
  number of iterations left; \<open>slice_units\<close> is the reserved-size expression of
  \<^verbatim>\<open>bpa_create\<close>, computed in \<^verbatim>\<open>size_t\<close> and stored in a \<^verbatim>\<open>pointer_t\<close>.
  The lemmas show what a successful create writes, that it keeps the arena
  well-formed, and how it fails.
\<close>

section \<open>Probing for a free slot\<close>

fun alloc_slot_loop :: "nat \<Rightarrow> (u16 \<Rightarrow> u32) \<Rightarrow> u32 \<Rightarrow> u32 \<times> u16 option" where
  "alloc_slot_loop 0 slot cid = (cid, None)"
| "alloc_slot_loop (Suc i) slot cid =
     (let c1 = cid + 1;
          c = (if c1 = 0 then c1 + 1 else c1);
          k = slot_index c
      in if slot k = 0 then (c, Some k) else alloc_slot_loop i slot c)"

definition alloc_slot :: "bpa_heap \<Rightarrow> bpa_heap \<times> u16 option" where
  "alloc_slot H =
     (let (c, r) = alloc_slot_loop MAX_SLOT (heap_slot H) (heap_cid H)
      in (H\<lparr>heap_cid := c\<rparr>, r))"

lemma alloc_slot_loop_numeral [simp]:
  "alloc_slot_loop (numeral n) slot cid =
     (let c1 = cid + 1;
          c = (if c1 = 0 then c1 + 1 else c1);
          k = slot_index c
      in if slot k = 0 then (c, Some k) else alloc_slot_loop (pred_numeral n) slot c)"
  by (simp only: numeral_eq_Suc alloc_slot_loop.simps)

lemma next_cid_nonzero: "(if cid + 1 = 0 then cid + 1 + 1 else cid + 1) \<noteq> (0 :: u32)"
  by simp

lemma alloc_slot_loop_Some:
  "alloc_slot_loop n slot cid = (c, Some k) \<Longrightarrow> c \<noteq> 0 \<and> slot_index c = k \<and> slot k = 0"
proof (induction n arbitrary: cid)
  case (Suc n)
  let ?c = "if cid + 1 = 0 then cid + 1 + 1 else cid + 1"
  show ?case
  proof (cases "slot (slot_index ?c) = 0")
    case True
    with Suc.prems show ?thesis
      by (simp only: alloc_slot_loop.simps Let_def if_True) (use next_cid_nonzero in auto)
  next
    case False
    with Suc.prems have "alloc_slot_loop n slot ?c = (c, Some k)"
      by (simp only: alloc_slot_loop.simps Let_def if_False)
    then show ?thesis by (rule Suc.IH)
  qed
qed simp

section \<open>Creating a slice\<close>

text \<open>
  \<^verbatim>\<open>(sz + sizeof(struct slice) + sizeof(id) + ALIGN_SIZE - 1) / ALIGN_SIZE\<close>: the
  sum and the quotient in 64-bit \<^verbatim>\<open>size_t\<close>, the result truncated to 32 bits.
\<close>

definition slice_units :: "u64 \<Rightarrow> u32" where
  "slice_units sz = ucast ((sz + 8 + 4 + (ALIGN_SIZE - 1)) div ALIGN_SIZE)"

definition bpa_create :: "bpa_heap \<Rightarrow> u64 \<Rightarrow> bpa_heap \<times> u32" where
  "bpa_create H sz =
     (let rsz = slice_units sz in
      if heap_sz H < heap_offset H + rsz then (H, 0)
      else (case alloc_slot H of
              (H1, None) \<Rightarrow> (H1, 0)
            | (H1, Some k) \<Rightarrow>
                let cid = heap_cid H1;
                    s = HEAP_SLICE (heap_offset H1);
                    H2 = H1\<lparr>heap_slot := (heap_slot H1)(k := heap_offset H1),
                            heap_offset := heap_offset H1 + rsz\<rparr>;
                    m1 = (heap_mem H2)(s := 0, s + 4 := rsz)
                in (H2\<lparr>heap_mem := m1(SLICE_ID m1 s := cid)\<rparr>, cid)))"

text \<open>
  The reserved size in units: the 64-bit quotient, truncated to 32 bits by the store
  into a \<^verbatim>\<open>pointer_t\<close>. Below 4 GiB the truncation is exact.
\<close>

lemma slice_units_unat:
  assumes "unat sz + 19 < 2 ^ 64"
  shows "unat (slice_units sz) = ((unat sz + 19) div 8) mod 2 ^ 32"
proof -
  have "unat (sz + 19) = unat sz + 19"
    using assms unat_add_lem [of sz 19] by simp
  then have "unat ((sz + 19) div 8) = (unat sz + 19) div 8"
    by (simp add: unat_div)
  then show ?thesis
    by (simp add: slice_units_def ALIGN_SIZE_def unsigned_ucast_eq take_bit_eq_mod add.assoc)
qed

lemma slice_units_nowrap:
  assumes "unat sz < 2 ^ 32"
  shows "unat (slice_units sz) = (unat sz + 19) div 8"
proof -
  have "(unat sz + 19) div 8 < 2 ^ 32"
    using assms by simp
  with assms show ?thesis
    by (simp add: slice_units_unat)
qed

lemma slice_units_ge2: "unat sz < 2 ^ 32 \<Longrightarrow> 2 \<le> unat (slice_units sz)"
  by (simp add: slice_units_nowrap)

text \<open>What the three stores of a create leave in memory.\<close>

lemma create_mem:
  fixes m :: memory and q :: nat and r :: u32 and c :: u32
  defines "m1 \<equiv> m(8 * q := 0, 8 * q + 4 := r)"
  assumes "2 \<le> unat r" "unat r < 2 ^ 29"
  shows "SLICE_ID m1 (8 * q) = 8 * (q + unat r) - 4"
    and "obj_sz (m1(SLICE_ID m1 (8 * q) := c)) q = unat r"
    and "obj_id (m1(SLICE_ID m1 (8 * q) := c)) q = c"
    and "obj_ref (m1(SLICE_ID m1 (8 * q) := c)) q = 0"
    and "x < 8 * q \<Longrightarrow> (m1(SLICE_ID m1 (8 * q) := c)) x = m x"
proof -
  show id: "SLICE_ID m1 (8 * q) = 8 * (q + unat r) - 4"
    using assms(3) by (simp add: m1_def SLICE_ID_def slice_sz_def unat_times8)
  have far: "8 * q + 4 < 8 * (q + unat r) - 4"
    using assms(2) by arith
  let ?M = "m1(SLICE_ID m1 (8 * q) := c)"
  have above: "y \<le> 8 * q + 4 \<Longrightarrow> ?M y = m1 y" for y
    using id far by simp
  have sz: "?M (8 * q + 4) = r"
    using above [of "8 * q + 4"] by (simp add: m1_def)
  then show "obj_sz ?M q = unat r"
    by (simp add: slice_sz_def)
  have "SLICE_ID ?M (8 * q) = SLICE_ID m1 (8 * q)"
    using sz by (simp add: SLICE_ID_def slice_sz_def m1_def)
  then show "obj_id ?M q = c"
    by (simp add: slice_id_def)
  show "obj_ref ?M q = 0"
    using above [of "8 * q"] by (simp add: slice_ref_def m1_def)
  show "x < 8 * q \<Longrightarrow> ?M x = m x"
    using above [of x] by (simp add: m1_def)
qed

section \<open>What a create does\<close>

lemma bpa_create_cases:
  assumes "bpa_create H sz = (H', h)"
  shows "(h = 0 \<and> (\<exists>c. H' = H \<or> H' = H\<lparr>heap_cid := c\<rparr>)) \<or>
         (\<exists>k. h \<noteq> 0 \<and> \<not> heap_sz H < heap_offset H + slice_units sz \<and>
              alloc_slot_loop MAX_SLOT (heap_slot H) (heap_cid H) = (h, Some k) \<and>
              H' = H\<lparr>heap_cid := h, heap_slot := (heap_slot H)(k := heap_offset H),
                     heap_offset := heap_offset H + slice_units sz,
                     heap_mem := (let s = HEAP_SLICE (heap_offset H);
                                      m1 = (heap_mem H)(s := 0, s + 4 := slice_units sz)
                                  in m1(SLICE_ID m1 s := h))\<rparr>)"
proof (cases "alloc_slot_loop MAX_SLOT (heap_slot H) (heap_cid H)")
  case (Pair c r)
  then show ?thesis
    using assms alloc_slot_loop_Some [of MAX_SLOT "heap_slot H" "heap_cid H" c]
    by (cases r) (auto simp: bpa_create_def alloc_slot_def Let_def split: if_splits)
qed

text \<open>Slot bookkeeping of a create: the new slice takes the free slot of its id.\<close>

lemma slots_ok_extend:
  assumes ok: "slots_ok slot m os" and free: "slot k = 0"
    and same: "\<And>p. p \<in> set os \<Longrightarrow> obj_id m' p = obj_id m p"
    and new: "obj_id m' q = c" "c \<noteq> 0" "slot_index c = k"
    and pos: "\<And>p. p \<in> set os \<Longrightarrow> 0 < p \<and> p < 2 ^ 32" "0 < q" "q < 2 ^ 32"
  shows "slots_ok (slot(k := of_nat q)) m' (os @ [q])"
proof -
  let ?slot = "slot(k := of_nat q)"
  have fwd: "unat (?slot k') \<in> set (os @ [q]) \<and> obj_id m' (unat (?slot k')) \<noteq> 0 \<and>
             slot_index (obj_id m' (unat (?slot k'))) = k'"
    if used: "?slot k' \<noteq> 0" for k'
  proof (cases "k' = k")
    case True
    with new pos(2,3) show ?thesis by (simp add: unat_of_nat_u32)
  next
    case False
    with used ok have "unat (slot k') \<in> set os" "obj_id m (unat (slot k')) \<noteq> 0"
      "slot_index (obj_id m (unat (slot k'))) = k'"
      by (auto simp: slots_ok_def)
    with False same show ?thesis by simp
  qed
  have bwd: "?slot (slot_index (obj_id m' p)) = of_nat p"
    if p: "p \<in> set (os @ [q])" and nz: "obj_id m' p \<noteq> 0" for p
  proof (cases "p \<in> set os")
    case True
    with ok nz same have old: "slot (slot_index (obj_id m' p)) = of_nat p"
      by (auto simp: slots_ok_def)
    have "slot_index (obj_id m' p) \<noteq> k"
    proof
      assume "slot_index (obj_id m' p) = k"
      with old free have "(of_nat p :: u32) = of_nat 0" by simp
      with pos(1) [OF True] show False using of_nat_u32_inj [of p 0] by simp
    qed
    with old show ?thesis by simp
  next
    case False
    with p new show ?thesis by simp
  qed
  from fwd bwd show ?thesis
    unfolding slots_ok_def by blast
qed

text \<open>
  Everything a successful create does, on a well-formed arena and a request below
  4 GiB: the new slice is appended at the old frontier with reference count \<open>0\<close> and
  the returned handle as its id, its slot points to it, the frontier advances by the
  reserved size, and the arena stays well-formed.
\<close>

lemma bpa_create_success_facts:
  assumes wf: "heap_wf H" and req: "unat sz < 2 ^ 32"
    and run: "bpa_create H sz = (H', h)" and ok: "h \<noteq> 0"
  shows "slices H' = map_option (\<lambda>os. os @ [unat (heap_offset H)]) (slices H)"
    and "unat (heap_offset H') = unat (heap_offset H) + (unat sz + 19) div 8"
    and "obj_id (heap_mem H') (unat (heap_offset H)) = h"
    and "obj_ref (heap_mem H') (unat (heap_offset H)) = 0"
    and "obj_sz (heap_mem H') (unat (heap_offset H)) = (unat sz + 19) div 8"
    and "heap_slot H' (slot_index h) = heap_offset H"
    and "\<And>k. k \<noteq> slot_index h \<Longrightarrow> heap_slot H' k = heap_slot H k"
    and "\<And>p. p \<in> set (the (slices H)) \<Longrightarrow>
            obj_id (heap_mem H') p = obj_id (heap_mem H) p \<and>
            obj_ref (heap_mem H') p = obj_ref (heap_mem H) p \<and>
            obj_sz (heap_mem H') p = obj_sz (heap_mem H) p"
    and "heap_sz H' = heap_sz H" "heap_collect H' = heap_collect H"
    and "heap_wf H'"
    and "\<And>x. x < 8 * unat (heap_offset H) \<Longrightarrow> heap_mem H' x = heap_mem H x"
proof -
  obtain os where os: "slices H = Some os" and szb: "unat (heap_sz H) < 2 ^ 29"
    and hdr: "HEAP_HEADER_SIZE \<le> unat (heap_offset H)"
    and cur: "cursor_ok H os" and slots: "slots_ok (heap_slot H) (heap_mem H) os"
    and dead: "placeholders_dead (heap_mem H) os"
    using wf by (rule heap_wfD)
  obtain k where fits: "\<not> heap_sz H < heap_offset H + slice_units sz"
    and alloc: "alloc_slot_loop MAX_SLOT (heap_slot H) (heap_cid H) = (h, Some k)"
    and H': "H' = H\<lparr>heap_cid := h, heap_slot := (heap_slot H)(k := heap_offset H),
                     heap_offset := heap_offset H + slice_units sz,
                     heap_mem := (let s = HEAP_SLICE (heap_offset H);
                                      m1 = (heap_mem H)(s := 0, s + 4 := slice_units sz)
                                  in m1(SLICE_ID m1 s := h))\<rparr>"
    using bpa_create_cases [OF run] ok by blast
  from alloc_slot_loop_Some [OF alloc]
  have k: "slot_index h = k" and free: "heap_slot H k = 0" by auto
  let ?q = "unat (heap_offset H)" and ?r = "slice_units sz"
  have ur: "unat ?r = (unat sz + 19) div 8"
    using req by (rule slice_units_nowrap)
  have qb: "?q \<le> unat (heap_sz H)"
    using wf by (rule heap_wfD) simp
  have nowrap: "unat (heap_offset H + ?r) = ?q + unat ?r"
    using szb qb req ur by (intro unat_plus_nowrap) simp
  have end_le: "?q + unat ?r \<le> unat (heap_sz H)"
    using fits nowrap by (simp add: u32_less_unat)
  have r2: "2 \<le> unat ?r" "unat ?r < 2 ^ 29"
    using ur end_le szb by simp_all
  have slice: "HEAP_SLICE (heap_offset H) = 8 * ?q"
    using qb szb by (simp add: HEAP_SLICE_nowrap)
  define m1 where "m1 = (heap_mem H)(8 * ?q := 0, 8 * ?q + 4 := ?r)"
  have M: "heap_mem H' = m1(SLICE_ID m1 (8 * ?q) := h)"
    using H' slice by (simp add: m1_def Let_def)
  note cm = create_mem [where m = "heap_mem H" and q = ?q and r = ?r, folded m1_def, OF r2]
  have new: "obj_sz (heap_mem H') ?q = unat ?r" "obj_id (heap_mem H') ?q = h"
    "obj_ref (heap_mem H') ?q = 0" "\<And>x. x < 8 * ?q \<Longrightarrow> heap_mem H' x = heap_mem H x"
    using cm(2-5) by (simp_all add: M)
  then show "\<And>x. x < 8 * ?q \<Longrightarrow> heap_mem H' x = heap_mem H x" by blast
  have chain_old: "chain (heap_mem H) HEAP_HEADER_SIZE ?q = Some os"
    using os by (simp add: slices_def)
  have qlim: "?q < 2 ^ 29" using qb szb by simp
  note below = chain_below_frame [OF chain_old qlim new(4)]
  have sl: "slices H' = Some (os @ [?q])"
    using chain_snoc [OF below(1)] new(1) r2 nowrap H'
    by (simp add: slices_def)
  then show "slices H' = map_option (\<lambda>os. os @ [unat (heap_offset H)]) (slices H)"
    using os by simp
  show "unat (heap_offset H') = ?q + (unat sz + 19) div 8"
    using H' nowrap ur by simp
  show "obj_id (heap_mem H') ?q = h" "obj_ref (heap_mem H') ?q = 0"
    "obj_sz (heap_mem H') ?q = (unat sz + 19) div 8"
    using new ur by simp_all
  show "heap_slot H' (slot_index h) = heap_offset H"
    "\<And>k'. k' \<noteq> slot_index h \<Longrightarrow> heap_slot H' k' = heap_slot H k'"
    using H' k by simp_all
  show "\<And>p. p \<in> set (the (slices H)) \<Longrightarrow>
          obj_id (heap_mem H') p = obj_id (heap_mem H) p \<and>
          obj_ref (heap_mem H') p = obj_ref (heap_mem H) p \<and>
          obj_sz (heap_mem H') p = obj_sz (heap_mem H) p"
    using below(2) os by simp
  show "heap_sz H' = heap_sz H" "heap_collect H' = heap_collect H"
    using H' by simp_all
  have pos: "\<And>p. p \<in> set os \<Longrightarrow> 0 < p \<and> p < 2 ^ 32"
    using slices_bounds [OF wf os] by fastforce
  have "slots_ok ((heap_slot H)(k := of_nat ?q)) (heap_mem H') (os @ [?q])"
    using slots free below(2) new(2) ok k pos hdr qlim
    by (intro slots_ok_extend) auto
  then have slots': "slots_ok (heap_slot H') (heap_mem H') (os @ [?q])"
    using H' by simp
  have dead': "placeholders_dead (heap_mem H') (os @ [?q])"
    using dead below(2) new(2) ok by (auto simp: placeholders_dead_def)
  have cur': "cursor_ok H' (os @ [?q])"
    using cur H' by (auto simp: cursor_ok_def)
  show "heap_wf H'"
    using sl szb hdr end_le nowrap H' cur' slots' dead'
    by (intro heap_wfI [OF sl]) simp_all
qed

section \<open>Properties of create\<close>

text \<open>
  C5 On a well-formed arena and a request below 4 GiB, \<^verbatim>\<open>bpa_create\<close> keeps the arena
  well-formed, whether it succeeds or fails.
\<close>

theorem bpa_create_wf:
  assumes "heap_wf H" "unat sz < 2 ^ 32"
  shows "heap_wf (fst (bpa_create H sz))"
proof (cases "bpa_create H sz")
  case (Pair H' h)
  show ?thesis
  proof (cases "h = 0")
    case True
    with bpa_create_cases [OF Pair] assms(1) Pair show ?thesis by auto
  next
    case False
    with bpa_create_success_facts(11) [OF assms Pair] Pair show ?thesis by simp
  qed
qed

text \<open>
  C20 A request that does not fit between the frontier and the capacity fails with the
  sentinel \<open>0\<close> and leaves the arena as it was.
\<close>

theorem bpa_create_out_of_space:
  assumes wf: "heap_wf H" and req: "unat sz < 2 ^ 32"
    and full: "unat (heap_sz H) < unat (heap_offset H) + (unat sz + 19) div 8"
  shows "bpa_create H sz = (H, 0)"
proof -
  have "unat (heap_offset H) < 2 ^ 29"
    by (rule heap_wfD [OF wf]) linarith
  then have "unat (heap_offset H + slice_units sz) = unat (heap_offset H) + (unat sz + 19) div 8"
    using req by (simp add: unat_plus_nowrap slice_units_nowrap)
  with full have "heap_sz H < heap_offset H + slice_units sz"
    by (simp add: u32_less_unat)
  then show ?thesis by (simp add: bpa_create_def)
qed

text \<open>
  C24 The size of a request is taken modulo 32 GiB: for every arena and every request
  \<open>sz\<close> below 4 GiB, \<^verbatim>\<open>bpa_create(H, sz + 2^35)\<close> does exactly what \<^verbatim>\<open>bpa_create(H, sz)\<close>
  does, so a request 32 GiB larger than the arena can hold succeeds whenever the small
  one does, and gets a slice of the small size.
\<close>

theorem bpa_create_ignores_high_bits:
  assumes req: "unat sz < 2 ^ 32"
  shows "bpa_create H (sz + 2 ^ 35) = bpa_create H sz"
proof -
  have big: "unat (sz + 2 ^ 35) = unat sz + 2 ^ 35"
    using req unat_add_lem [of sz "2 ^ 35"] by simp
  have "unat sz + 2 ^ 35 + 19 = (unat sz + 19) + 8 * 2 ^ 32" by simp
  then have "(unat sz + 2 ^ 35 + 19) div 8 = (unat sz + 19) div 8 + 2 ^ 32"
    by (simp only: div_mult_self2 zero_neq_numeral [symmetric])
  then have "((unat sz + 2 ^ 35 + 19) div 8) mod 2 ^ 32 = ((unat sz + 19) div 8) mod (2 ^ 32 :: nat)"
    by (simp only: mod_add_self2)
  moreover have "unat sz + 2 ^ 35 + 19 < 2 ^ 64" "unat sz + 19 < 2 ^ 64" using req by simp_all
  ultimately have "unat (slice_units (sz + 2 ^ 35)) = unat (slice_units sz)"
    using big by (simp only: slice_units_unat)
  then have "slice_units (sz + 2 ^ 35) = slice_units sz"
    by (simp add: word_unat_eq_iff)
  then show ?thesis by (simp add: bpa_create_def)
qed

end
