(* ===== verification/Bpa_Access.thy ===== *)
theory Bpa_Access
  imports Bpa_Heap
begin

text \<open>
  Handle resolution, pinning and reverse lookup: \<^verbatim>\<open>bpa_grab\<close>, \<^verbatim>\<open>bpa_release\<close>,
  \<^verbatim>\<open>bpa_get_ptr\<close> and \<^verbatim>\<open>bpa_get_id\<close> of \<^verbatim>\<open>src/bpa.c\<close>. A pointer returned to the
  client is its byte offset from the start of the buffer (\<open>s + 1\<close> of a
  \<^verbatim>\<open>struct slice *\<close> is 8 bytes past the slice); \<^verbatim>\<open>NULL\<close> is \<open>None\<close>. The assertions of
  \<^verbatim>\<open>bpa_release\<close> and \<^verbatim>\<open>bpa_get_id\<close> are the \<open>Inl\<close> branches of their results.
  The lemmas relate the O(1) slot-table lookup to a search of the slices by id (its
  abstract specification) and show each operation's effect and its invariant.
\<close>

section \<open>Operations\<close>

definition bpa_grab :: "bpa_heap \<Rightarrow> u32 \<Rightarrow> bpa_heap \<times> nat option" where
  "bpa_grab H uid =
     (let off = heap_slot H (slot_index uid) in
      if off = 0 then (H, None)
      else let s = HEAP_SLICE off in
           if slice_id (heap_mem H) s \<noteq> uid then (H, None)
           else (H\<lparr>heap_mem := (heap_mem H)(s := slice_ref (heap_mem H) s + 1)\<rparr>, Some (s + 8)))"

definition bpa_release :: "bpa_heap \<Rightarrow> u32 \<Rightarrow> bpa_error + bpa_heap" where
  "bpa_release H uid =
     (let off = heap_slot H (slot_index uid) in
      if off = 0 then Inl ReleaseUnknown
      else let s = HEAP_SLICE off in
           if slice_id (heap_mem H) s \<noteq> uid then Inl ReleaseStale
           else if \<not> (0 <s slice_ref (heap_mem H) s) then Inl ReleaseUnpinned
           else Inr (H\<lparr>heap_mem := (heap_mem H)(s := slice_ref (heap_mem H) s - 1)\<rparr>))"

definition bpa_get_ptr :: "bpa_heap \<Rightarrow> u32 \<Rightarrow> nat option" where
  "bpa_get_ptr H uid =
     (let off = heap_slot H (slot_index uid) in
      if off = 0 then None
      else let s = HEAP_SLICE off in
           if slice_id (heap_mem H) s \<noteq> uid then None else Some (s + 8))"

definition bpa_get_id :: "bpa_heap \<Rightarrow> nat \<Rightarrow> bpa_error + u32" where
  "bpa_get_id H ptr =
     (if 0 < ptr \<and> ptr < unat (heap_offset H * ALIGN_SIZE)
      then Inr (slice_id (heap_mem H) (ptr - 8))
      else Inl GetIdOutOfRange)"

text \<open>
  The abstract specification of resolution: the payload of the slice whose id is the
  handle, found by a linear search of the slices; the handle \<open>0\<close> never resolves.
\<close>

definition find_slice :: "memory \<Rightarrow> nat list \<Rightarrow> u32 \<Rightarrow> nat option" where
  "find_slice m os uid =
     (if uid = 0 then None else map_option (\<lambda>q. 8 * q + 8) (find (\<lambda>q. obj_id m q = uid) os))"

section \<open>The slot table on a well-formed arena\<close>

lemma slot_used:
  assumes "heap_wf H" "slices H = Some os" "heap_slot H k \<noteq> 0"
  shows "unat (heap_slot H k) \<in> set os" "obj_id (heap_mem H) (unat (heap_slot H k)) \<noteq> 0"
    "slot_index (obj_id (heap_mem H) (unat (heap_slot H k))) = k"
    "HEAP_SLICE (heap_slot H k) = 8 * unat (heap_slot H k)"
proof -
  from assms(1) obtain os' where "slices H = Some os'"
    "slots_ok (heap_slot H) (heap_mem H) os'" by (rule heap_wfD)
  with assms(2,3) show "unat (heap_slot H k) \<in> set os"
    "obj_id (heap_mem H) (unat (heap_slot H k)) \<noteq> 0"
    "slot_index (obj_id (heap_mem H) (unat (heap_slot H k))) = k"
    by (auto simp: slots_ok_def)
  then show "HEAP_SLICE (heap_slot H k) = 8 * unat (heap_slot H k)"
    using slices_bounds(4) [OF assms(1,2)] by (simp add: HEAP_SLICE_nowrap)
qed

lemma slot_of_slice:
  assumes "heap_wf H" "slices H = Some os" "q \<in> set os" "obj_id (heap_mem H) q \<noteq> 0"
  shows "heap_slot H (slot_index (obj_id (heap_mem H) q)) = of_nat q"
proof -
  from assms(1) obtain os' where "slices H = Some os'"
    "slots_ok (heap_slot H) (heap_mem H) os'" by (rule heap_wfD)
  with assms(2-4) show ?thesis by (auto simp: slots_ok_def)
qed

text \<open>Two slices of a well-formed arena never carry the same nonzero id.\<close>

lemma slice_ids_unique:
  assumes wf: "heap_wf H" and os: "slices H = Some os"
    and p: "p \<in> set os" and q: "q \<in> set os"
    and same: "obj_id (heap_mem H) p = obj_id (heap_mem H) q" and nz: "obj_id (heap_mem H) p \<noteq> 0"
  shows "p = q"
proof -
  have "(of_nat p :: u32) = of_nat q"
    using slot_of_slice [OF wf os p nz] slot_of_slice [OF wf os q] same nz by simp
  moreover have "p < 2 ^ 32" "q < 2 ^ 32"
    using slices_bounds(4) [OF wf os p] slices_bounds(4) [OF wf os q] by simp_all
  ultimately show ?thesis by (simp add: of_nat_u32_inj)
qed

lemma get_ptr_slot:
  assumes "heap_wf H" "slices H = Some os"
  shows "bpa_get_ptr H uid =
           (let off = heap_slot H (slot_index uid) in
            if off \<noteq> 0 \<and> obj_id (heap_mem H) (unat off) = uid
            then Some (8 * unat off + 8) else None)"
  using slot_used [OF assms] by (simp add: bpa_get_ptr_def Let_def)

lemma find_Some_mem: "find P xs = Some x \<Longrightarrow> x \<in> set xs \<and> P x"
  by (auto simp: find_Some_iff nth_mem)

lemma find_append:
  "find P (xs @ ys) = (case find P xs of None \<Rightarrow> find P ys | Some x \<Rightarrow> Some x)"
  by (induction xs) auto

lemma find_slice_cong:
  "(\<And>q. q \<in> set os \<Longrightarrow> obj_id m' q = obj_id m q) \<Longrightarrow> find_slice m' os uid = find_slice m os uid"
  unfolding find_slice_def by (simp cong: find_cong)

section \<open>Resolution refines the search by id\<close>

text \<open>
  On a well-formed arena, \<^verbatim>\<open>bpa_get_ptr\<close>'s direct-mapped lookup with its identity
  check returns exactly what the search of the slices for the handle returns.
\<close>

lemma get_ptr_find_slice:
  assumes wf: "heap_wf H" and os: "slices H = Some os"
  shows "bpa_get_ptr H uid = find_slice (heap_mem H) os uid"
proof -
  let ?m = "heap_mem H" and ?off = "heap_slot H (slot_index uid)"
  note look = get_ptr_slot [OF wf os, of uid]
  show ?thesis
  proof (cases "uid = 0")
    case True
    then show ?thesis
      using look slot_used(2) [OF wf os, of "slot_index uid"] by (auto simp: find_slice_def Let_def)
  next
    case False
    show ?thesis
    proof (cases "find (\<lambda>q. obj_id ?m q = uid) os")
      case None
      then have "\<forall>q\<in>set os. obj_id ?m q \<noteq> uid"
        by (simp add: find_None_iff)
      then show ?thesis
        using look slot_used(1) [OF wf os] None False by (auto simp: find_slice_def Let_def)
    next
      case (Some q)
      then have q: "q \<in> set os" "obj_id ?m q = uid"
        by (auto dest: find_Some_mem)
      have "?off = of_nat q"
        using slot_of_slice [OF wf os q(1)] q(2) False by simp
      moreover have "unat (of_nat q :: u32) = q" "(of_nat q :: u32) \<noteq> 0"
        using slices_bounds(1,4) [OF wf os q(1)] by (simp_all add: unat_of_nat_u32 of_nat_u32_inj [of q 0, simplified])
      ultimately show ?thesis
        using look Some q(2) False by (simp add: find_slice_def Let_def)
    qed
  qed
qed

lemma bpa_get_ptr_SomeE:
  assumes wf: "heap_wf H" and os: "slices H = Some os" and get: "bpa_get_ptr H uid = Some p"
  obtains q where "q \<in> set os" "p = 8 * q + 8" "obj_id (heap_mem H) q = uid" "uid \<noteq> 0"
  using get get_ptr_find_slice [OF wf os, of uid]
  by (auto simp: find_slice_def dest: find_Some_mem split: if_splits)

lemma bpa_get_ptr_of_slice:
  assumes wf: "heap_wf H" and os: "slices H = Some os" and q: "q \<in> set os"
    and nz: "obj_id (heap_mem H) q \<noteq> 0"
  shows "bpa_get_ptr H (obj_id (heap_mem H) q) = Some (8 * q + 8)"
proof -
  have "find (\<lambda>p. obj_id (heap_mem H) p = obj_id (heap_mem H) q) os = Some q"
  proof -
    obtain p where p: "find (\<lambda>p. obj_id (heap_mem H) p = obj_id (heap_mem H) q) os = Some p"
      using q by (cases "find (\<lambda>p. obj_id (heap_mem H) p = obj_id (heap_mem H) q) os")
        (auto simp: find_None_iff)
    then have "p \<in> set os" "obj_id (heap_mem H) p = obj_id (heap_mem H) q"
      by (auto dest: find_Some_mem)
    with slice_ids_unique [OF wf os _ q] nz p show ?thesis by auto
  qed
  with nz show ?thesis
    by (simp add: get_ptr_find_slice [OF wf os] find_slice_def)
qed

section \<open>Pin, unpin and reverse lookup\<close>

text \<open>
  \<^verbatim>\<open>bpa_grab\<close> and \<^verbatim>\<open>bpa_release\<close> resolve exactly as \<^verbatim>\<open>bpa_get_ptr\<close> does; on a
  hit they add or remove one reference at the slice header, 8 bytes below the payload.
\<close>

lemma grab_via_get_ptr:
  "bpa_grab H uid =
     (case bpa_get_ptr H uid of
        None \<Rightarrow> (H, None)
      | Some p \<Rightarrow>
          (H\<lparr>heap_mem := (heap_mem H)(p - 8 := slice_ref (heap_mem H) (p - 8) + 1)\<rparr>, Some p))"
  by (simp add: bpa_grab_def bpa_get_ptr_def Let_def)

lemma release_via_get_ptr:
  "bpa_release H uid =
     (case bpa_get_ptr H uid of
        None \<Rightarrow> Inl (if heap_slot H (slot_index uid) = 0 then ReleaseUnknown else ReleaseStale)
      | Some p \<Rightarrow>
          if 0 <s slice_ref (heap_mem H) (p - 8)
          then Inr (H\<lparr>heap_mem := (heap_mem H)(p - 8 := slice_ref (heap_mem H) (p - 8) - 1)\<rparr>)
          else Inl ReleaseUnpinned)"
  by (simp add: bpa_release_def bpa_get_ptr_def Let_def)

text \<open>A store to a live slice's reference count changes no resolution.\<close>

lemma ref_write_resolution:
  assumes wf: "heap_wf H" and os: "slices H = Some os" and q: "q \<in> set os"
    and nz: "obj_id (heap_mem H) q \<noteq> 0"
  shows "heap_wf (H\<lparr>heap_mem := (heap_mem H)(8 * q := v)\<rparr>)"
    and "slices (H\<lparr>heap_mem := (heap_mem H)(8 * q := v)\<rparr>) = Some os"
    and "bpa_get_ptr (H\<lparr>heap_mem := (heap_mem H)(8 * q := v)\<rparr>) h = bpa_get_ptr H h"
proof -
  let ?H = "H\<lparr>heap_mem := (heap_mem H)(8 * q := v)\<rparr>"
  show wf': "heap_wf ?H"
    using wf os q nz by (rule heap_wf_ref_write)
  show os': "slices ?H = Some os"
    using os by (simp add: slices_def chain_ref_write)
  have "obj_id ((heap_mem H)(8 * q := v)) p = obj_id (heap_mem H) p" if "p \<in> set os" for p
    using slices_bounds [OF wf os that] by (intro obj_ref_write) simp_all
  then have "find_slice ((heap_mem H)(8 * q := v)) os h = find_slice (heap_mem H) os h"
    by (rule find_slice_cong)
  then show "bpa_get_ptr ?H h = bpa_get_ptr H h"
    using get_ptr_find_slice [OF wf' os'] get_ptr_find_slice [OF wf os] by simp
qed

lemma resolved_slice:
  assumes wf: "heap_wf H" and os: "slices H = Some os" and get: "bpa_get_ptr H uid = Some p"
  obtains q where "q \<in> set os" "p = 8 * q + 8" "p - 8 = 8 * q" "obj_id (heap_mem H) q \<noteq> 0"
proof -
  from bpa_get_ptr_SomeE [OF wf os get] obtain q where
    "q \<in> set os" "p = 8 * q + 8" "obj_id (heap_mem H) q = uid" "uid \<noteq> 0" .
  with that show ?thesis by simp
qed

text \<open>
  C15 \<^verbatim>\<open>bpa_grab\<close> keeps the arena well-formed.
\<close>

theorem bpa_grab_wf: "heap_wf H \<Longrightarrow> heap_wf (fst (bpa_grab H uid))"
proof (cases "bpa_get_ptr H uid")
  case (Some p)
  assume wf: "heap_wf H"
  then obtain os where os: "slices H = Some os" by (auto elim: heap_wfD)
  from resolved_slice [OF wf os Some] obtain q where
    "q \<in> set os" "p - 8 = 8 * q" "obj_id (heap_mem H) q \<noteq> 0" .
  with ref_write_resolution(1) [OF wf os] Some show ?thesis
    by (simp add: grab_via_get_ptr)
qed (simp add: grab_via_get_ptr)

text \<open>
  C16 A \<^verbatim>\<open>bpa_release\<close> that passes its assertions keeps the arena well-formed.
\<close>

theorem bpa_release_wf: "heap_wf H \<Longrightarrow> bpa_release H uid = Inr H' \<Longrightarrow> heap_wf H'"
proof (cases "bpa_get_ptr H uid")
  case (Some p)
  assume wf: "heap_wf H" and rel: "bpa_release H uid = Inr H'"
  then obtain os where os: "slices H = Some os" by (auto elim: heap_wfD)
  from resolved_slice [OF wf os Some] obtain q where
    "q \<in> set os" "p - 8 = 8 * q" "obj_id (heap_mem H) q \<noteq> 0" .
  with ref_write_resolution(1) [OF wf os] Some rel show ?thesis
    by (auto simp: release_via_get_ptr split: if_splits)
qed (simp add: release_via_get_ptr)

text \<open>
  C14 Pinning a live handle and unpinning it again gives back exactly the arena one started
  with (when the count does not overflow).
\<close>

theorem bpa_grab_release:
  assumes wf: "heap_wf H" and get: "bpa_get_ptr H h = Some p"
    and nomax: "0 <s slice_ref (heap_mem H) (p - 8) + 1"
  shows "bpa_release (fst (bpa_grab H h)) h = Inr H"
proof -
  obtain os where os: "slices H = Some os" using wf by (auto elim: heap_wfD)
  from resolved_slice [OF wf os get] obtain q where
    q: "q \<in> set os" "p - 8 = 8 * q" "obj_id (heap_mem H) q \<noteq> 0" .
  let ?v = "slice_ref (heap_mem H) (p - 8) + 1"
  have G: "fst (bpa_grab H h) = H\<lparr>heap_mem := (heap_mem H)(8 * q := ?v)\<rparr>"
    using get q(2) by (simp add: grab_via_get_ptr)
  have "bpa_get_ptr (fst (bpa_grab H h)) h = Some p"
    using get ref_write_resolution(3) [OF wf os q(1,3)] G by simp
  then show ?thesis
    using G nomax q(2) by (simp add: release_via_get_ptr slice_ref_def)
qed

text \<open>
  C13 \<^verbatim>\<open>bpa_get_id\<close> of the pointer \<^verbatim>\<open>bpa_get_ptr\<close> returns for a handle is that handle:
  the pointer passes the bounds assertion and the id stored at the slice's end is read back.
\<close>

theorem bpa_get_id_get_ptr:
  assumes wf: "heap_wf H" and get: "bpa_get_ptr H h = Some p"
  shows "bpa_get_id H p = Inr h"
proof -
  obtain os where os: "slices H = Some os" using wf by (auto elim: heap_wfD)
  from bpa_get_ptr_SomeE [OF wf os get] obtain q where
    q: "q \<in> set os" "p = 8 * q + 8" "obj_id (heap_mem H) q = h" .
  note b = slices_bounds [OF wf os q(1)]
  have "unat (heap_offset H) < 2 ^ 29"
    by (rule heap_wfD [OF wf]) linarith
  then have "unat (heap_offset H * ALIGN_SIZE) = 8 * unat (heap_offset H)"
    by (simp add: unat_times8)
  moreover have "p < 8 * unat (heap_offset H)"
    using b q(2) by simp
  ultimately show ?thesis
    using q by (simp add: bpa_get_id_def)
qed

section \<open>Properties\<close>

text \<open>
  C12 On a well-formed arena, \<^verbatim>\<open>bpa_get_ptr\<close>'s slot lookup with its identity check
  returns what a search of the slices for the handle returns (the handle \<open>0\<close> never resolves).
\<close>

theorem bpa_get_ptr_refines:
  assumes "heap_wf H" "slices H = Some os"
  shows "bpa_get_ptr H uid = find_slice (heap_mem H) os uid"
  using assms by (rule get_ptr_find_slice)

text \<open>
  C17 The reference count is a signed \<^verbatim>\<open>int\<close> incremented without a check: a handle pinned
  \<open>INT_MAX\<close> times and grabbed once more still resolves, but its count has wrapped to a
  negative value and \<^verbatim>\<open>bpa_release\<close> fails its assertion \<^verbatim>\<open>s->ref > 0\<close>.
\<close>

theorem bpa_grab_overflow_unreleasable:
  assumes wf: "heap_wf H" and get: "bpa_get_ptr H uid = Some p"
    and max: "slice_ref (heap_mem H) (p - 8) = 0x7FFFFFFF"
  shows "bpa_get_ptr (fst (bpa_grab H uid)) uid = Some p \<and>
         bpa_release (fst (bpa_grab H uid)) uid = Inl ReleaseUnpinned"
proof -
  obtain os where os: "slices H = Some os" using wf by (auto elim: heap_wfD)
  obtain q where q: "q \<in> set os" "p - 8 = 8 * q" "obj_id (heap_mem H) q \<noteq> 0"
    by (rule resolved_slice [OF wf os get])
  let ?H = "H\<lparr>heap_mem := (heap_mem H)(8 * q := 0x80000000)\<rparr>"
  have grab: "fst (bpa_grab H uid) = ?H"
    using get max q(2) by (simp add: grab_via_get_ptr)
  have get': "bpa_get_ptr ?H uid = Some p"
    using ref_write_resolution(3) [OF wf os q(1,3)] get by simp
  have "\<not> (0 :: u32) <s 0x80000000" by (simp add: word_sless_alt)
  then have "bpa_release ?H uid = Inl ReleaseUnpinned"
    using get' q(2) by (simp add: release_via_get_ptr slice_ref_def)
  with get' grab show ?thesis by simp
qed

text \<open>
  C18 Two handles that resolve to the same payload pointer are the same handle.
\<close>

theorem bpa_get_ptr_inj:
  assumes wf: "heap_wf H" and h1: "bpa_get_ptr H h1 = Some p" and h2: "bpa_get_ptr H h2 = Some p"
  shows "h1 = h2"
proof -
  obtain os where os: "slices H = Some os" using wf by (auto elim: heap_wfD)
  obtain q1 where "q1 \<in> set os" "p = 8 * q1 + 8" "obj_id (heap_mem H) q1 = h1"
    using bpa_get_ptr_SomeE [OF wf os h1] by blast
  moreover obtain q2 where "q2 \<in> set os" "p = 8 * q2 + 8" "obj_id (heap_mem H) q2 = h2"
    using bpa_get_ptr_SomeE [OF wf os h2] by blast
  ultimately show ?thesis by simp
qed

end
