(* ===== verification/Bpa_View.thy ===== *)
theory Bpa_View
  imports Bpa_Access
begin

text \<open>
  The abstract content of an arena: the list of its slices as the client sees them,
  each as its reference count, its id and its payload (the \<open>2 * sz - 3\<close> cells between
  the header and the id). The compactor must preserve the pinned ones and only move
  them; these views are what its refinement theorems compare. The lemmas here say
  which memory a view reads, so that a move or a write elsewhere can be shown to keep it.
\<close>

type_synonym slice_view = "u32 \<times> u32 \<times> u32 list"

definition payload :: "memory \<Rightarrow> nat \<Rightarrow> u32 list" where
  "payload m q = map (\<lambda>i. m (8 * q + 8 + 4 * i)) [0..<2 * obj_sz m q - 3]"

definition obj_view :: "memory \<Rightarrow> nat \<Rightarrow> slice_view" where
  "obj_view m q = (obj_ref m q, obj_id m q, payload m q)"

definition pinned :: "slice_view \<Rightarrow> bool" where
  "pinned v \<longleftrightarrow> fst v \<noteq> 0"

definition heap_view :: "bpa_heap \<Rightarrow> slice_view list option" where
  "heap_view H = map_option (map (obj_view (heap_mem H))) (slices H)"

text \<open>What the client can still reach: the pinned slices in order, with their contents.\<close>

definition live_view :: "bpa_heap \<Rightarrow> slice_view list option" where
  "live_view H = map_option (filter pinned) (heap_view H)"

section \<open>What a view reads\<close>

text \<open>
  A slice of \<open>sz\<close> units read at \<open>q'\<close> in \<open>m'\<close> looks like the slice at \<open>q\<close> in \<open>m\<close> when
  the \<open>8 * sz\<close> bytes agree: this covers a \<^verbatim>\<open>memmove\<close> of the slice (\<open>q' \<noteq> q\<close>) and
  a write outside it (\<open>q' = q\<close>).
\<close>

lemma obj_view_shift:
  assumes agree: "\<And>x. x < 8 * obj_sz m q \<Longrightarrow> m' (8 * q' + x) = m (8 * q + x)"
    and sz: "2 \<le> obj_sz m q" "obj_sz m q < 2 ^ 29"
  shows "obj_sz m' q' = obj_sz m q" "obj_view m' q' = obj_view m q"
proof -
  have "m' (8 * q' + 4) = m (8 * q + 4)"
    using agree [of 4] sz(1) by simp
  then show szeq: "obj_sz m' q' = obj_sz m q"
    by (simp add: slice_sz_def)
  have ref: "obj_ref m' q' = obj_ref m q"
    using agree [of 0] sz(1) by (simp add: slice_ref_def)
  have "8 * obj_sz m q - 4 < 8 * obj_sz m q"
    using sz(1) by simp
  then have "m' (8 * q' + (8 * obj_sz m q - 4)) = m (8 * q + (8 * obj_sz m q - 4))"
    by (rule agree)
  moreover have "8 * (q' + obj_sz m q) - 4 = 8 * q' + (8 * obj_sz m q - 4)"
    "8 * (q + obj_sz m q) - 4 = 8 * q + (8 * obj_sz m q - 4)"
    using sz(1) by simp_all
  ultimately have idv: "obj_id m' q' = obj_id m q"
    using sz(2) szeq by (simp add: slice_id_def SLICE_ID_unit)
  have "payload m' q' = payload m q"
    unfolding payload_def szeq
  proof (rule map_cong [OF refl])
    fix i
    assume "i \<in> set [0..<2 * obj_sz m q - 3]"
    then have "8 + 4 * i < 8 * obj_sz m q" by simp
    then show "m' (8 * q' + 8 + 4 * i) = m (8 * q + 8 + 4 * i)"
      using agree [of "8 + 4 * i"] by (simp add: add.assoc)
  qed
  with ref idv show "obj_view m' q' = obj_view m q"
    by (simp add: obj_view_def)
qed

lemma obj_view_frame:
  assumes "\<And>x. 8 * q \<le> x \<Longrightarrow> x < 8 * (q + obj_sz m q) \<Longrightarrow> m' x = m x"
    and "2 \<le> obj_sz m q" "obj_sz m q < 2 ^ 29"
  shows "obj_sz m' q = obj_sz m q" "obj_view m' q = obj_view m q"
  using obj_view_shift [of m q m' q] assms by simp_all

text \<open>The views of a run of slices depend only on the bytes the run covers.\<close>

lemma chain_views_frame:
  assumes "chain m a b = Some os" "b < 2 ^ 29"
    and "\<And>x. 8 * a \<le> x \<Longrightarrow> x < 8 * b \<Longrightarrow> m' x = m x"
  shows "chain m' a b = Some os" "map (obj_view m') os = map (obj_view m) os"
proof -
  have "chain m' a b = chain m a b"
    using assms(3) by (intro chain_frame) simp
  with assms(1) show "chain m' a b = Some os" by simp
  have "obj_view m' q = obj_view m q" if q: "q \<in> set os" for q
  proof -
    from chain_bounds [OF assms(1) q] have "a \<le> q" "2 \<le> obj_sz m q" "q + obj_sz m q \<le> b"
      by auto
    with assms(2,3) show ?thesis
      by (intro obj_view_frame(2)) auto
  qed
  then show "map (obj_view m') os = map (obj_view m) os" by simp
qed

lemma obj_view_parts [simp]:
  "fst (obj_view m q) = obj_ref m q" "fst (snd (obj_view m q)) = obj_id m q"
  "pinned (obj_view m q) = (obj_ref m q \<noteq> 0)"
  by (simp_all add: obj_view_def pinned_def)

end
