(* ===== verification/Bpa_Collect.thy ===== *)
theory Bpa_Collect
  imports Bpa_View
begin

text \<open>
  The incremental compactor: \<^verbatim>\<open>collect\<close> and \<^verbatim>\<open>bpa_collect\<close> of \<^verbatim>\<open>src/bpa.c\<close>.
  \<open>collect_loop\<close> is the \<^verbatim>\<open>for (;;)\<close> loop of \<^verbatim>\<open>collect\<close> over its locals \<^verbatim>\<open>p\<close>,
  \<^verbatim>\<open>dst\<close> and \<^verbatim>\<open>length\<close>; it is a \<^theory_text>\<open>partial_function (option)\<close> because on a corrupted
  arena (a slice size that wraps \<^verbatim>\<open>p\<close> around) it need not stop. \<open>collect\<close> is one
  increment, \<open>collect_until_idle\<close> the \<^verbatim>\<open>do ... while\<close> loop and the unbounded \<^verbatim>\<open>for\<close> of a
  full collection, \<open>collect_steps\<close> the bounded \<^verbatim>\<open>for\<close> of \<^verbatim>\<open>bpa_collect(H, step)\<close>.
  The signed \<^verbatim>\<open>int length\<close> (here \<open>len\<close>) is a 32-bit word compared with \<open><s\<close>; its additions wrap as
  the conversions of the source do.
\<close>

section \<open>Operations\<close>

partial_function (option) collect_loop :: "bpa_heap \<Rightarrow> u32 \<Rightarrow> u32 \<Rightarrow> u32 \<Rightarrow> bpa_heap option" where
  "collect_loop H p dst len =
     (if heap_offset H \<le> p then Some (H\<lparr>heap_offset := dst, heap_collect := 0\<rparr>)
      else if COLLECT_STEP_LENGTH <s len then
        Some (if p \<noteq> dst then
                let s = HEAP_SLICE dst;
                    m1 = (heap_mem H)(s := 0, s + 4 := p - dst)
                in H\<lparr>heap_collect := dst, heap_mem := m1(SLICE_ID m1 s := 0)\<rparr>
              else H\<lparr>heap_collect := dst\<rparr>)
      else
        let s = HEAP_SLICE p;
            sz = slice_sz (heap_mem H) s;
            uid = slice_id (heap_mem H) s;
            len1 = len + 8
        in if slice_ref (heap_mem H) s = 0 then
             collect_loop (if uid \<noteq> 0 then H\<lparr>heap_slot := (heap_slot H)(slot_index uid := 0)\<rparr> else H)
               (p + sz) dst len1
           else if dst \<noteq> p then
             collect_loop
               (H\<lparr>heap_slot := (heap_slot H)(slot_index uid := dst),
                  heap_mem := memmove (heap_mem H) (HEAP_SLICE dst) s (unat (sz * ALIGN_SIZE))\<rparr>)
               (p + sz) (dst + sz) (len1 + sz * ALIGN_SIZE)
           else collect_loop H (p + sz) (dst + sz) len1)"

declare collect_loop.simps [code]

definition collect :: "bpa_heap \<Rightarrow> (bpa_error + bpa_heap) option" where
  "collect H =
     (if heap_collect H = 0 then Some (Inl CollectIdle)
      else map_option Inr (collect_loop H (heap_collect H) (heap_collect H) 0))"

partial_function (option) collect_until_idle :: "bpa_heap \<Rightarrow> (bpa_error + bpa_heap) option" where
  "collect_until_idle H =
     Option.bind (collect H)
       (\<lambda>r. case r of
              Inl e \<Rightarrow> Some (Inl e)
            | Inr H' \<Rightarrow> if heap_collect H' = 0 then Some (Inr H') else collect_until_idle H')"

declare collect_until_idle.simps [code]

fun collect_steps :: "nat \<Rightarrow> bpa_heap \<Rightarrow> (bpa_error + bpa_heap) option" where
  "collect_steps 0 H = Some (Inr H)"
| "collect_steps (Suc n) H =
     Option.bind (collect H)
       (\<lambda>r. case r of
              Inl e \<Rightarrow> Some (Inl e)
            | Inr H' \<Rightarrow> if heap_collect H' = 0 then Some (Inr H') else collect_steps n H')"

definition bpa_collect :: "bpa_heap \<Rightarrow> int \<Rightarrow> (bpa_error + bpa_heap) option" where
  "bpa_collect H step =
     Option.bind (if step = 0 \<and> heap_collect H \<noteq> 0 then collect_until_idle H else Some (Inr H))
       (\<lambda>r. case r of
              Inl e \<Rightarrow> Some (Inl e)
            | Inr H1 \<Rightarrow>
                let H2 = (if heap_collect H1 = 0
                          then H1\<lparr>heap_collect := of_nat HEAP_HEADER_SIZE\<rparr> else H1)
                in if step = 0 then collect_until_idle H2 else collect_steps (nat step) H2)"

end
