(* ===== verification/Bpa_Sweep.thy ===== *)
theory Bpa_Sweep
  imports Bpa_Collect
begin

text \<open>
  Correctness of one sweep increment, \<^verbatim>\<open>collect\<close> of \<^verbatim>\<open>src/bpa.c\<close>. The loop
  \<open>collect_loop H p dst len\<close> keeps \<open>sweep_inv\<close>: the compacted slices \<open>xs\<close> tile
  \<open>[HEAP_HEADER_SIZE, dst)\<close>, the unvisited slices \<open>ys\<close> tile \<open>[p, H->offset)\<close>, the
  gap \<open>[dst, p)\<close> is empty or at least two units (the size of a placeholder), and the
  handle table agrees with \<open>xs @ ys\<close>. Each branch of the loop body is one lemma
  (\<open>sweep_dead\<close>, \<open>sweep_move\<close>, \<open>sweep_keep\<close>, and the exits \<open>sweep_finish\<close>,
  \<open>sweep_pause\<close>); \<open>collect_loop_sweep\<close> shows by induction on \<open>length ys\<close> that
  the loop returns (\<open>Some\<close>) with a well-formed arena whose pinned content is that of
  \<open>xs @ ys\<close>. An increment visits at least two slices before its quota can stop it,
  so it either ends the cycle or shortens the run from the cursor (\<open>pending\<close>): this
  measure makes \<open>collect_until_idle\<close> and \<open>collect_steps\<close> total on a well-formed
  arena.
\<close>

section \<open>Loop invariant and postcondition\<close>

definition sweep_inv :: "bpa_heap \<Rightarrow> u32 \<Rightarrow> u32 \<Rightarrow> nat list \<Rightarrow> nat list \<Rightarrow> bool" where
  "sweep_inv H p dst xs ys \<longleftrightarrow>
     unat (heap_sz H) < 2 ^ 29 \<and> HEAP_HEADER_SIZE \<le> unat dst \<and> unat dst \<le> unat p \<and>
     unat (heap_offset H) \<le> unat (heap_sz H) \<and> (p = dst \<or> unat dst + 2 \<le> unat p) \<and>
     chain (heap_mem H) HEAP_HEADER_SIZE (unat dst) = Some xs \<and>
     chain (heap_mem H) (unat p) (unat (heap_offset H)) = Some ys \<and>
     slots_ok (heap_slot H) (heap_mem H) (xs @ ys) \<and> placeholders_dead (heap_mem H) (xs @ ys)"

definition swept :: "bpa_heap \<Rightarrow> bool" where
  "swept H \<longleftrightarrow>
     (case chain (heap_mem H) HEAP_HEADER_SIZE
             (unat (if heap_collect H = 0 then heap_offset H else heap_collect H)) of
        None \<Rightarrow> False
      | Some xs \<Rightarrow> (\<forall>q \<in> set xs. obj_ref (heap_mem H) q \<noteq> 0))"

text \<open>
  What the arena holds once the current cycle completes, if nothing else happens: the
  slices already compacted (before the cursor) as they are, then the pinned ones of the
  slices not yet visited. For an idle arena the cursor is taken to be the frontier.
\<close>

definition cycle_view :: "memory \<Rightarrow> nat list \<Rightarrow> nat list \<Rightarrow> slice_view list" where
  "cycle_view m xs ys = map (obj_view m) xs @ filter pinned (map (obj_view m) ys)"

definition sweep_view :: "bpa_heap \<Rightarrow> slice_view list option" where
  "sweep_view H =
     (let c = unat (if heap_collect H = 0 then heap_offset H else heap_collect H) in
      case (chain (heap_mem H) HEAP_HEADER_SIZE c, chain (heap_mem H) c (unat (heap_offset H))) of
        (Some xs, Some ys) \<Rightarrow> Some (cycle_view (heap_mem H) xs ys)
      | _ \<Rightarrow> None)"

definition sweep_post :: "bpa_heap \<Rightarrow> nat list \<Rightarrow> nat list \<Rightarrow> bpa_heap \<Rightarrow> bool" where
  "sweep_post H xs ys H' \<longleftrightarrow>
     heap_wf H' \<and> heap_sz H' = heap_sz H \<and> heap_cid H' = heap_cid H \<and>
     map_option (filter pinned) (heap_view H') =
       Some (filter pinned (map (obj_view (heap_mem H)) (xs @ ys))) \<and>
     (heap_collect H' = 0 \<or>
      ys \<noteq> [] \<and>
      (\<exists>cs. chain (heap_mem H') (unat (heap_collect H')) (unat (heap_offset H')) = Some cs \<and>
            length cs \<le> Suc (length ys))) \<and>
     ((\<forall>q \<in> set xs. obj_ref (heap_mem H) q \<noteq> 0) \<longrightarrow> swept H') \<and>
     sweep_view H' = Some (cycle_view (heap_mem H) xs ys)"


definition pending :: "bpa_heap \<Rightarrow> nat" where
  "pending H =
     (case chain (heap_mem H) (unat (heap_collect H)) (unat (heap_offset H)) of
        Some cs \<Rightarrow> length cs
      | None \<Rightarrow> 0)"

section \<open>The handle table under reclamation and relocation\<close>

lemma slots_okI:
  assumes "\<And>k. slot k \<noteq> 0 \<Longrightarrow> unat (slot k) \<in> set os \<and> obj_id m (unat (slot k)) \<noteq> 0 \<and>
                                slot_index (obj_id m (unat (slot k))) = k"
    and "\<And>q. q \<in> set os \<Longrightarrow> obj_id m q \<noteq> 0 \<Longrightarrow> slot (slot_index (obj_id m q)) = of_nat q"
  shows "slots_ok slot m os"
  using assms unfolding slots_ok_def by blast

lemma slots_okD:
  assumes "slots_ok slot m os"
  shows "slot k \<noteq> 0 \<Longrightarrow> unat (slot k) \<in> set os" "slot k \<noteq> 0 \<Longrightarrow> obj_id m (unat (slot k)) \<noteq> 0"
    "slot k \<noteq> 0 \<Longrightarrow> slot_index (obj_id m (unat (slot k))) = k"
    "q \<in> set os \<Longrightarrow> obj_id m q \<noteq> 0 \<Longrightarrow> slot (slot_index (obj_id m q)) = of_nat q"
  using assms unfolding slots_ok_def by blast+

lemma slots_ok_index_inj:
  assumes ok: "slots_ok slot m os" and r: "r \<in> set os" "obj_id m r \<noteq> 0" "r < 2 ^ 32"
    and q: "q \<in> set os" "obj_id m q \<noteq> 0" "q < 2 ^ 32" and ne: "r \<noteq> q"
  shows "slot_index (obj_id m r) \<noteq> slot_index (obj_id m q)"
proof
  assume same: "slot_index (obj_id m r) = slot_index (obj_id m q)"
  have "slot (slot_index (obj_id m q)) = of_nat q" "slot (slot_index (obj_id m r)) = of_nat r"
    using slots_okD(4) [OF ok] r q by blast+
  with same have "(of_nat r :: u32) = of_nat q" by simp
  with r(3) q(3) ne show False by (simp add: of_nat_u32_inj)
qed

lemma slots_ok_drop:
  assumes ok: "slots_ok slot m (xs @ q # ys)" and d: "distinct (xs @ q # ys)"
    and b: "\<forall>r \<in> set (xs @ q # ys). r < 2 ^ 32"
  shows "slots_ok (if obj_id m q \<noteq> 0 then slot(slot_index (obj_id m q) := 0) else slot) m (xs @ ys)"
    (is "slots_ok ?slot m _")
proof (rule slots_okI)
  fix k
  assume k: "?slot k \<noteq> 0"
  then have sk: "slot k \<noteq> 0" and kq: "obj_id m q \<noteq> 0 \<Longrightarrow> k \<noteq> slot_index (obj_id m q)"
    by (auto split: if_splits)
  have "unat (slot k) \<noteq> q"
  proof
    assume "unat (slot k) = q"
    with slots_okD(2,3) [OF ok sk] kq show False by auto
  qed
  with slots_okD(1-3) [OF ok sk] k
  show "unat (?slot k) \<in> set (xs @ ys) \<and> obj_id m (unat (?slot k)) \<noteq> 0 \<and>
        slot_index (obj_id m (unat (?slot k))) = k"
    by (auto split: if_splits)
next
  fix r
  assume r: "r \<in> set (xs @ ys)" "obj_id m r \<noteq> 0"
  have sr: "slot (slot_index (obj_id m r)) = of_nat r"
    using slots_okD(4) [OF ok _ r(2)] r(1) by simp
  have "slot_index (obj_id m r) \<noteq> slot_index (obj_id m q)" if nz: "obj_id m q \<noteq> 0"
    using slots_ok_index_inj [OF ok _ r(2) _ _ nz] r(1) b d by auto
  with sr show "?slot (slot_index (obj_id m r)) = of_nat r"
    by auto
qed

lemma slots_ok_move:
  assumes ok: "slots_ok slot m (xs @ q # ys)" and d: "distinct (xs @ q # ys)"
    and b: "\<forall>r \<in> set (xs @ q # ys). r < 2 ^ 32" "q' < 2 ^ 32" and q': "q' \<notin> set (xs @ ys)"
    and nz: "obj_id m q \<noteq> 0"
    and ids: "\<And>r. r \<in> set (xs @ ys) \<Longrightarrow> obj_id m' r = obj_id m r" "obj_id m' q' = obj_id m q"
  shows "slots_ok (slot(slot_index (obj_id m q) := of_nat q')) m' (xs @ q' # ys)"
    (is "slots_ok ?slot m' _")
proof -
  let ?k = "slot_index (obj_id m q)"
  have dropped: "slots_ok (slot(?k := 0)) m (xs @ ys)"
    using slots_ok_drop [OF ok d b(1)] nz by simp
  show ?thesis
  proof (rule slots_okI)
    fix k
    assume k: "?slot k \<noteq> 0"
    show "unat (?slot k) \<in> set (xs @ q' # ys) \<and> obj_id m' (unat (?slot k)) \<noteq> 0 \<and>
          slot_index (obj_id m' (unat (?slot k))) = k"
    proof (cases "k = ?k")
      case True
      with ids(2) nz b(2) show ?thesis by (simp add: unat_of_nat_u32)
    next
      case False
      then have "(slot(?k := 0)) k \<noteq> 0" using k by simp
      note D = slots_okD(1-3) [OF dropped this]
      with False ids(1) [OF D(1)] show ?thesis by simp
    qed
  next
    fix r
    assume r: "r \<in> set (xs @ q' # ys)" "obj_id m' r \<noteq> 0"
    show "?slot (slot_index (obj_id m' r)) = of_nat r"
    proof (cases "r = q'")
      case True
      with ids(2) show ?thesis by simp
    next
      case False
      with r have r': "r \<in> set (xs @ ys)" "obj_id m r \<noteq> 0"
        using ids(1) by auto
      have "slot (slot_index (obj_id m r)) = of_nat r"
        using slots_okD(4) [OF ok _ r'(2)] r'(1) by simp
      moreover have "slot_index (obj_id m r) \<noteq> ?k"
        using slots_ok_index_inj [OF ok _ r'(2) _ _ nz] r'(1) b(1) d by auto
      ultimately show ?thesis
        using ids(1) [OF r'(1)] by simp
    qed
  qed
qed

lemma slots_ok_insert_anon:
  "slots_ok slot m (xs @ ys) \<Longrightarrow> obj_id m q = 0 \<Longrightarrow> slots_ok slot m (xs @ q # ys)"
  unfolding slots_ok_def by auto

section \<open>The branches of the loop body\<close>

lemma placeholders_dead_views:
  "map (obj_view m') os' = map (obj_view m) os \<Longrightarrow> placeholders_dead m' os' = placeholders_dead m os"
proof -
  have pd: "placeholders_dead m os = (\<forall>v \<in> set (map (obj_view m) os). fst (snd v) = 0 \<longrightarrow> fst v = 0)"
    for m os by (auto simp: placeholders_dead_def obj_view_def)
  show "map (obj_view m') os' = map (obj_view m) os \<Longrightarrow> ?thesis"
    by (simp only: pd)
qed

lemma sweep_invD:
  assumes "sweep_inv H p dst xs ys"
  shows "unat (heap_sz H) < 2 ^ 29" "HEAP_HEADER_SIZE \<le> unat dst" "unat dst \<le> unat p"
    "unat p \<le> unat (heap_offset H)" "unat (heap_offset H) \<le> unat (heap_sz H)"
    "p = dst \<or> unat dst + 2 \<le> unat p"
    "chain (heap_mem H) HEAP_HEADER_SIZE (unat dst) = Some xs"
    "chain (heap_mem H) (unat p) (unat (heap_offset H)) = Some ys"
    "slots_ok (heap_slot H) (heap_mem H) (xs @ ys)" "placeholders_dead (heap_mem H) (xs @ ys)"
  using assms chain_le [of "heap_mem H" "unat p" "unat (heap_offset H)" ys]
  unfolding sweep_inv_def by auto

lemma sweep_inv_elems:
  assumes "sweep_inv H p dst xs ys"
  shows "distinct (xs @ ys)" "\<forall>r \<in> set (xs @ ys). r < 2 ^ 29"
    "\<forall>r \<in> set xs. r < unat dst" "\<forall>r \<in> set ys. unat p \<le> r"
    "\<forall>r \<in> set (xs @ ys). r < 2 ^ 32"
proof -
  note D = sweep_invD [OF assms]
  show xs: "\<forall>r \<in> set xs. r < unat dst" and ys: "\<forall>r \<in> set ys. unat p \<le> r"
    using chain_bounds [OF D(7)] chain_bounds [OF D(8)] by fastforce+
  have "\<forall>r \<in> set ys. r < unat (heap_offset H)"
    using chain_bounds [OF D(8)] by fastforce
  with xs D(1-5) show b: "\<forall>r \<in> set (xs @ ys). r < 2 ^ 29" by fastforce
  then show "\<forall>r \<in> set (xs @ ys). r < 2 ^ 32" by fastforce
  have "distinct xs" "distinct ys"
    using chain_sorted [OF D(7)] chain_sorted [OF D(8)] by (simp_all add: strict_sorted_iff)
  with xs ys D(3) show "distinct (xs @ ys)" by fastforce
qed

lemma sweep_inv_next:
  assumes inv: "sweep_inv H p dst xs ys" and lt: "p < heap_offset H"
  obtains ys' where "ys = unat p # ys'" "2 \<le> obj_sz (heap_mem H) (unat p)"
    "chain (heap_mem H) (unat p + obj_sz (heap_mem H) (unat p)) (unat (heap_offset H)) = Some ys'"
    "unat p + obj_sz (heap_mem H) (unat p) \<le> unat (heap_offset H)"
    "unat (p + slice_sz (heap_mem H) (8 * unat p)) = unat p + obj_sz (heap_mem H) (unat p)"
proof -
  note D = sweep_invD [OF inv]
  have "unat p < unat (heap_offset H)" using lt by (simp add: u32_less_unat)
  with chain_Some_cases [OF D(8)] obtain ys' where ys': "ys = unat p # ys'"
    "2 \<le> obj_sz (heap_mem H) (unat p)"
    "chain (heap_mem H) (unat p + obj_sz (heap_mem H) (unat p)) (unat (heap_offset H)) = Some ys'"
    by auto
  moreover have le: "unat p + obj_sz (heap_mem H) (unat p) \<le> unat (heap_offset H)"
    using chain_le [OF ys'(3)] .
  moreover have "unat (p + slice_sz (heap_mem H) (8 * unat p)) = unat p + obj_sz (heap_mem H) (unat p)"
    using le D(1,5) by (intro unat_plus_nowrap) simp
  ultimately show ?thesis using that by blast
qed

lemma collect_loop_process:
  assumes "p < heap_offset H" "\<not> COLLECT_STEP_LENGTH <s len" "unat p < 2 ^ 29"
  shows "collect_loop H p dst len =
    (let m = heap_mem H; sz = slice_sz m (8 * unat p); uid = obj_id m (unat p) in
     if obj_ref m (unat p) = 0 then
       collect_loop (if uid \<noteq> 0 then H\<lparr>heap_slot := (heap_slot H)(slot_index uid := 0)\<rparr> else H)
         (p + sz) dst (len + 8)
     else if dst \<noteq> p then
       collect_loop (H\<lparr>heap_slot := (heap_slot H)(slot_index uid := dst),
           heap_mem := memmove m (HEAP_SLICE dst) (8 * unat p) (unat (sz * 8))\<rparr>)
         (p + sz) (dst + sz) (len + 8 + sz * 8)
     else collect_loop H (p + sz) (dst + sz) (len + 8))"
proof -
  have "\<not> heap_offset H \<le> p" using assms(1) by simp
  then show ?thesis
    using assms(2,3) by (subst collect_loop.simps) (simp add: HEAP_SLICE_nowrap Let_def)
qed

lemma sweep_dead:
  assumes inv: "sweep_inv H p dst xs ys" and lt: "p < heap_offset H"
    and dead: "obj_ref (heap_mem H) (unat p) = 0"
  defines "H1 \<equiv> (if obj_id (heap_mem H) (unat p) \<noteq> 0
                 then H\<lparr>heap_slot := (heap_slot H)(slot_index (obj_id (heap_mem H) (unat p)) := 0)\<rparr>
                 else H)"
  obtains ys' where "ys = unat p # ys'"
    "sweep_inv H1 (p + slice_sz (heap_mem H) (8 * unat p)) dst xs ys'"
proof -
  note D = sweep_invD [OF inv] and E = sweep_inv_elems [OF inv]
  obtain ys' where n: "ys = unat p # ys'" "2 \<le> obj_sz (heap_mem H) (unat p)"
    "chain (heap_mem H) (unat p + obj_sz (heap_mem H) (unat p)) (unat (heap_offset H)) = Some ys'"
    "unat p + obj_sz (heap_mem H) (unat p) \<le> unat (heap_offset H)"
    "unat (p + slice_sz (heap_mem H) (8 * unat p)) = unat p + obj_sz (heap_mem H) (unat p)"
    by (rule sweep_inv_next [OF inv lt])
  have fields: "heap_mem H1 = heap_mem H" "heap_sz H1 = heap_sz H" "heap_offset H1 = heap_offset H"
    by (simp_all add: H1_def)
  have "slots_ok (heap_slot H1) (heap_mem H) (xs @ ys')"
    using slots_ok_drop [of "heap_slot H" "heap_mem H" xs "unat p" ys'] D(9) E(1,5) n(1)
    by (auto simp: H1_def)
  moreover have "placeholders_dead (heap_mem H) (xs @ ys')"
    using D(10) n(1) by (simp add: placeholders_dead_def)
  moreover have "p + slice_sz (heap_mem H) (8 * unat p) \<noteq> dst"
    using n(2,5) D(3) by (auto simp: u32_eq_unat)
  ultimately show ?thesis
    using that [OF n(1)] D n fields unfolding sweep_inv_def by auto
qed

lemma sweep_keep:
  assumes inv: "sweep_inv H p p xs ys" and lt: "p < heap_offset H"
  obtains ys' where "ys = unat p # ys'"
    "sweep_inv H (p + slice_sz (heap_mem H) (8 * unat p)) (p + slice_sz (heap_mem H) (8 * unat p))
       (xs @ [unat p]) ys'"
proof -
  note D = sweep_invD [OF inv]
  obtain ys' where n: "ys = unat p # ys'" "2 \<le> obj_sz (heap_mem H) (unat p)"
    "chain (heap_mem H) (unat p + obj_sz (heap_mem H) (unat p)) (unat (heap_offset H)) = Some ys'"
    "unat p + obj_sz (heap_mem H) (unat p) \<le> unat (heap_offset H)"
    "unat (p + slice_sz (heap_mem H) (8 * unat p)) = unat p + obj_sz (heap_mem H) (unat p)"
    by (rule sweep_inv_next [OF inv lt])
  have "chain (heap_mem H) HEAP_HEADER_SIZE (unat p + obj_sz (heap_mem H) (unat p)) = Some (xs @ [unat p])"
    using chain_snoc [OF D(7) n(2)] .
  then show ?thesis
    using that [OF n(1)] D n unfolding sweep_inv_def by auto
qed

lemma obj_view_eqD:
  "obj_view m' r = obj_view m q \<Longrightarrow> obj_id m' r = obj_id m q \<and> obj_ref m' r = obj_ref m q"
  by (simp add: obj_view_def)

lemma map_views_eqD:
  assumes "map (obj_view m') os = map (obj_view m) os" "r \<in> set os"
  shows "obj_id m' r = obj_id m r \<and> obj_ref m' r = obj_ref m r"
proof (rule obj_view_eqD)
  show "obj_view m' r = obj_view m r"
    using assms map_eq_conv by fast
qed

lemma sweep_move:
  assumes inv: "sweep_inv H p dst xs ys" and lt: "p < heap_offset H"
    and live: "obj_ref (heap_mem H) (unat p) \<noteq> 0" and ne: "dst \<noteq> p"
  defines "sz \<equiv> slice_sz (heap_mem H) (8 * unat p)"
  defines "m' \<equiv> memmove (heap_mem H) (HEAP_SLICE dst) (8 * unat p) (unat (sz * 8))"
  defines "H1 \<equiv> H\<lparr>heap_slot := (heap_slot H)(slot_index (obj_id (heap_mem H) (unat p)) := dst),
                    heap_mem := m'\<rparr>"
  obtains ys' where "ys = unat p # ys'"
    "sweep_inv H1 (p + sz) (dst + sz) (xs @ [unat dst]) ys'"
    "map (obj_view m') (xs @ unat dst # ys') = map (obj_view (heap_mem H)) (xs @ unat p # ys')"
proof -
  let ?m = "heap_mem H" and ?P = "unat p" and ?D = "unat dst"
  let ?S = "obj_sz ?m ?P"
  note D = sweep_invD [OF inv] and E = sweep_inv_elems [OF inv]
  obtain ys' where n: "ys = ?P # ys'" "2 \<le> ?S" "chain ?m (?P + ?S) (unat (heap_offset H)) = Some ys'"
    "?P + ?S \<le> unat (heap_offset H)" "unat (p + slice_sz ?m (8 * ?P)) = ?P + ?S"
    by (rule sweep_inv_next [OF inv lt])
  have psz: "unat (p + sz) = ?P + ?S" using n(5) by (simp add: sz_def)
  have gap: "?D + 2 \<le> ?P" using D(6) ne by auto
  have bnd: "?P + ?S < 2 ^ 29" using n(4) D(1,5) by simp
  have m': "m' = memmove ?m (8 * ?D) (8 * ?P) (8 * ?S)"
    using bnd D(3) by (simp add: m'_def sz_def HEAP_SLICE_nowrap unat_times8)
  have below: "m' x = ?m x" if "x < 8 * ?D" for x
    using that unfolding m' by (simp add: memmove_outside)
  have above: "m' x = ?m x" if "8 * (?P + ?S) \<le> x" for x
    using that gap unfolding m' by (simp add: memmove_outside)
  have agree: "m' (8 * ?D + x) = ?m (8 * ?P + x)" if "x < 8 * ?S" for x
    using that unfolding m' by (simp add: memmove_inside add.commute)
  have moved: "obj_sz m' ?D = ?S" "obj_view m' ?D = obj_view ?m ?P"
    using obj_view_shift [OF agree n(2)] bnd by simp_all
  have "?D < 2 ^ 29" "unat (heap_offset H) < 2 ^ 29"
    using D(1,3,5) bnd by simp_all
  note xs = chain_views_frame [OF D(7) this(1) below]
    and ys' = chain_views_frame [OF n(3) this(2) above]
  have views: "map (obj_view m') (xs @ ?D # ys') = map (obj_view ?m) (xs @ ?P # ys')"
    using xs(2) ys'(2) moved(2) by simp
  have dsz: "unat (dst + sz) = ?D + ?S"
  proof -
    have "unat dst + unat sz < 2 ^ 32" using bnd gap by (simp add: sz_def)
    then show ?thesis by (simp add: unat_plus_nowrap sz_def)
  qed
  have nz: "obj_id ?m ?P \<noteq> 0"
    using D(10) live n(1) by (auto simp: placeholders_dead_def)
  have notin: "?D \<notin> set (xs @ ys')"
    using E(3) chain_bounds [OF n(3)] gap by fastforce
  have "slots_ok ((heap_slot H)(slot_index (obj_id ?m ?P) := of_nat ?D)) m' (xs @ ?D # ys')"
  proof (rule slots_ok_move [OF _ _ _ _ notin nz])
    show "slots_ok (heap_slot H) ?m (xs @ ?P # ys')" using D(9) n(1) by simp
    show "distinct (xs @ ?P # ys')" "\<forall>r \<in> set (xs @ ?P # ys'). r < 2 ^ 32"
      using E(1,5) n(1) by simp_all
    show "?D < 2 ^ 32" using gap bnd by simp
    show "obj_id m' r = obj_id ?m r" if "r \<in> set (xs @ ys')" for r
      using that map_views_eqD [OF xs(2)] map_views_eqD [OF ys'(2)] by auto
    show "obj_id m' ?D = obj_id ?m ?P" using obj_view_eqD [OF moved(2)] by simp
  qed
  moreover have "placeholders_dead m' (xs @ ?D # ys')"
    using D(10) n(1) placeholders_dead_views [OF views] by simp
  moreover have "chain m' HEAP_HEADER_SIZE (?D + ?S) = Some (xs @ [?D])"
    using chain_snoc [OF xs(1)] moved(1) n(2) by simp
  moreover have "p + sz \<noteq> dst + sz"
    using ne by simp
  ultimately have "sweep_inv H1 (p + sz) (dst + sz) (xs @ [?D]) ys'"
    using D(1,2,5) gap psz dsz ys'(1) unfolding sweep_inv_def H1_def by simp
  with n(1) views show ?thesis using that by blast
qed

lemma sweep_finish:
  assumes inv: "sweep_inv H p dst xs ys" and ge: "heap_offset H \<le> p"
  shows "ys = []" "heap_wf (H\<lparr>heap_offset := dst, heap_collect := 0\<rparr>)"
    "slices (H\<lparr>heap_offset := dst, heap_collect := 0\<rparr>) = Some xs"
proof -
  note D = sweep_invD [OF inv]
  have "unat p = unat (heap_offset H)" using D(4) ge by (simp add: u32_le_unat)
  with D(8) show "ys = []" by (auto dest: chain_Some_cases)
  then show "slices (H\<lparr>heap_offset := dst, heap_collect := 0\<rparr>) = Some xs"
    using D(7) by (simp add: slices_def)
  with D \<open>ys = []\<close> show "heap_wf (H\<lparr>heap_offset := dst, heap_collect := 0\<rparr>)"
    by (intro heap_wfI) (simp_all add: cursor_ok_def)
qed

text \<open>
  The placeholder a paused sweep writes over the gap \<open>[dst, p)\<close>: a free slice of
  \<open>p - dst\<close> units with reference count \<open>0\<close> and id \<open>0\<close>; the stores stay inside the gap.
\<close>

lemma placeholder_write:
  fixes m :: memory
  assumes gap: "D + 2 \<le> P" "P < 2 ^ 29" and w: "unat w = P - D"
  defines "m1 \<equiv> m(8 * D := 0, 8 * D + 4 := w)"
  defines "m2 \<equiv> m1(SLICE_ID m1 (8 * D) := 0)"
  shows "obj_sz m2 D = P - D" "obj_id m2 D = 0" "obj_ref m2 D = 0"
    "\<And>x. x < 8 * D \<Longrightarrow> m2 x = m x" "\<And>x. 8 * P \<le> x \<Longrightarrow> m2 x = m x"
proof -
  have s1: "obj_sz m1 D = P - D" using w by (simp add: m1_def slice_sz_def)
  have sid: "SLICE_ID m1 (8 * D) = 8 * P - 4"
    using gap s1 SLICE_ID_unit [of m1 D] by simp
  have m2: "m2 = m1(8 * P - 4 := 0)" by (simp add: m2_def sid)
  have ne: "8 * P - 4 \<noteq> 8 * D + 4" "8 * P - 4 \<noteq> 8 * D" using gap by simp_all
  show "obj_sz m2 D = P - D" using s1 ne by (simp add: m2 slice_sz_def)
  then show "obj_id m2 D = 0"
    using gap by (simp add: slice_id_def SLICE_ID_unit m2)
  show "obj_ref m2 D = 0" using ne by (simp add: m2 m1_def slice_ref_def)
  show "m2 x = m x" if "x < 8 * D" for x
  proof -
    have "x \<noteq> 8 * P - 4" using that gap by arith
    with that show ?thesis by (simp add: m2 m1_def)
  qed
  show "m2 x = m x" if "8 * P \<le> x" for x
  proof -
    have "x \<noteq> 8 * P - 4" using that gap by arith
    with that gap show ?thesis by (simp add: m2 m1_def)
  qed
qed

lemma sweep_pause:
  assumes inv: "sweep_inv H p dst xs ys" and lt: "p < heap_offset H"
  defines "H' \<equiv> (if p \<noteq> dst then
                    let s = HEAP_SLICE dst; m1 = (heap_mem H)(s := 0, s + 4 := p - dst)
                    in H\<lparr>heap_collect := dst, heap_mem := m1(SLICE_ID m1 s := 0)\<rparr>
                  else H\<lparr>heap_collect := dst\<rparr>)"
  obtains cs where "heap_wf H'" "heap_collect H' = dst" "heap_offset H' = heap_offset H"
    "chain (heap_mem H') HEAP_HEADER_SIZE (unat dst) = Some xs"
    "map (obj_view (heap_mem H')) xs = map (obj_view (heap_mem H)) xs"
    "chain (heap_mem H') (unat dst) (unat (heap_offset H)) = Some cs" "length cs \<le> Suc (length ys)"
    "filter pinned (map (obj_view (heap_mem H')) cs) = filter pinned (map (obj_view (heap_mem H)) ys)"
proof (cases "p = dst")
  case True
  note D = sweep_invD [OF inv]
  have "unat p < unat (heap_offset H)" using lt by (simp add: u32_less_unat)
  with D(8) have "unat dst \<in> set ys" using True by (auto dest: chain_Some_cases)
  moreover have "slices H' = Some (xs @ ys)"
    using True chain_append [OF D(7), of "unat (heap_offset H)" ys] D(8) by (simp add: H'_def slices_def)
  ultimately have "heap_wf H'"
    using True D by (intro heap_wfI) (simp_all add: H'_def cursor_ok_def)
  with True D show ?thesis
    by (intro that [of ys]) (simp_all add: H'_def)
next
  case False
  let ?m = "heap_mem H" and ?P = "unat p" and ?D = "unat dst"
  note D = sweep_invD [OF inv]
  have gap: "?D + 2 \<le> ?P" using D(6) False by auto
  have Pb: "?P < 2 ^ 29" using D(1,4,5) by simp
  have w: "unat (p - dst) = ?P - ?D" using D(3) by (simp add: unat_sub u32_le_unat)
  define m2 where "m2 = ((heap_mem H)(8 * ?D := 0, 8 * ?D + 4 := p - dst))
                         (SLICE_ID ((heap_mem H)(8 * ?D := 0, 8 * ?D + 4 := p - dst)) (8 * ?D) := 0)"
  note W = placeholder_write [OF gap Pb w, where m = "heap_mem H", folded m2_def]
  have H': "H' = H\<lparr>heap_collect := dst, heap_mem := m2\<rparr>"
    using False gap Pb by (simp add: H'_def m2_def HEAP_SLICE_nowrap Let_def)
  have "?D < 2 ^ 29" "unat (heap_offset H) < 2 ^ 29" using gap Pb D(1,5) by simp_all
  note xs = chain_views_frame [OF D(7) this(1), of m2] and ys = chain_views_frame [OF D(8) this(2), of m2]
  have xs': "chain m2 HEAP_HEADER_SIZE ?D = Some xs" "map (obj_view m2) xs = map (obj_view ?m) xs"
    using xs W(4) by simp_all
  have ys': "chain m2 ?P (unat (heap_offset H)) = Some ys" "map (obj_view m2) ys = map (obj_view ?m) ys"
    using ys W(5) by simp_all
  have "chain m2 ?D ?P = Some [?D]"
    using chain_single [of m2 ?D] W(1) gap by simp
  with ys'(1) have cs: "chain m2 ?D (unat (heap_offset H)) = Some (?D # ys)"
    using chain_append by fastforce
  have ids: "obj_id m2 q = obj_id ?m q \<and> obj_ref m2 q = obj_ref ?m q" if "q \<in> set (xs @ ys)" for q
    using that map_views_eqD [OF xs'(2)] map_views_eqD [OF ys'(2)] by auto
  have "slots_ok (heap_slot H) m2 (xs @ ys)"
    using D(9) slots_ok_cong [of "xs @ ys" m2 ?m] ids by blast
  then have "slots_ok (heap_slot H) m2 (xs @ ?D # ys)"
    using W(2) by (rule slots_ok_insert_anon)
  moreover have "placeholders_dead m2 (xs @ ?D # ys)"
    using D(10) ids W(2,3) unfolding placeholders_dead_def by auto
  moreover have "slices H' = Some (xs @ ?D # ys)"
    using chain_append [OF xs'(1) cs] by (simp add: H' slices_def)
  ultimately have "heap_wf H'"
    using D gap by (intro heap_wfI) (simp_all add: H' cursor_ok_def)
  moreover have "filter pinned (map (obj_view m2) (?D # ys)) = filter pinned (map (obj_view ?m) ys)"
  proof -
    have eq: "map (obj_view m2) (?D # ys) = obj_view m2 ?D # map (obj_view ?m) ys"
      using ys'(2) by (simp only: list.map)
    show ?thesis unfolding eq using W(3) by simp
  qed
  moreover have "heap_mem H' = m2" "heap_collect H' = dst" "heap_offset H' = heap_offset H"
    by (simp_all add: H')
  ultimately show ?thesis
    using that [of "?D # ys"] xs'(1,2) cs by simp
qed

lemma sweep_step:
  assumes inv: "sweep_inv H p dst xs ys" and lt: "p < heap_offset H"
    and nq: "\<not> COLLECT_STEP_LENGTH <s len"
  obtains H1 p1 dst1 len1 xs1 ys1 where
    "collect_loop H p dst len = collect_loop H1 p1 dst1 len1"
    "sweep_inv H1 p1 dst1 xs1 ys1" "ys = unat p # ys1" "p = dst \<Longrightarrow> len1 = len + 8"
    "cycle_view (heap_mem H1) xs1 ys1 = cycle_view (heap_mem H) xs ys"
    "(\<forall>q \<in> set xs. obj_ref (heap_mem H) q \<noteq> 0) \<Longrightarrow> (\<forall>q \<in> set xs1. obj_ref (heap_mem H1) q \<noteq> 0)"
    "heap_sz H1 = heap_sz H" "heap_cid H1 = heap_cid H"
proof -
  let ?m = "heap_mem H" and ?P = "unat p"
  let ?sz = "slice_sz ?m (8 * ?P)" and ?uid = "obj_id ?m ?P"
  note D = sweep_invD [OF inv]
  have "?P < 2 ^ 29" using D(1,4,5) by simp
  note unfold = collect_loop_process [OF lt nq this, of dst]
  consider (dead) "obj_ref ?m ?P = 0" | (move) "obj_ref ?m ?P \<noteq> 0" "dst \<noteq> p"
    | (keep) "obj_ref ?m ?P \<noteq> 0" "dst = p"
    by blast
  then show ?thesis
  proof cases
    case dead
    let ?H1 = "if ?uid \<noteq> 0 then H\<lparr>heap_slot := (heap_slot H)(slot_index ?uid := 0)\<rparr> else H"
    obtain ys' where ys': "ys = ?P # ys'" "sweep_inv ?H1 (p + ?sz) dst xs ys'"
      by (rule sweep_dead [OF inv lt dead])
    have mem: "heap_mem ?H1 = ?m" "heap_sz ?H1 = heap_sz H" "heap_cid ?H1 = heap_cid H" by simp_all
    show ?thesis
    proof (rule that [OF _ ys'(2) ys'(1)])
      show "collect_loop H p dst len = collect_loop ?H1 (p + ?sz) dst (len + 8)"
        using unfold dead by (simp add: Let_def)
    qed (use dead mem ys'(1) in \<open>simp_all add: cycle_view_def\<close>)
  next
    case move
    let ?m' = "memmove ?m (HEAP_SLICE dst) (8 * ?P) (unat (?sz * 8))"
    let ?H1 = "H\<lparr>heap_slot := (heap_slot H)(slot_index ?uid := dst), heap_mem := ?m'\<rparr>"
    obtain ys' where ys': "ys = ?P # ys'" "sweep_inv ?H1 (p + ?sz) (dst + ?sz) (xs @ [unat dst]) ys'"
      "map (obj_view ?m') (xs @ unat dst # ys') = map (obj_view ?m) (xs @ ?P # ys')"
      by (rule sweep_move [OF inv lt move])
    have xsv: "map (obj_view ?m') xs = map (obj_view ?m) xs" "obj_view ?m' (unat dst) = obj_view ?m ?P"
      using ys'(3) by simp_all
    show ?thesis
    proof (rule that [OF _ ys'(2) ys'(1)])
      show "collect_loop H p dst len = collect_loop ?H1 (p + ?sz) (dst + ?sz) (len + 8 + ?sz * 8)"
        using unfold move by (simp add: Let_def)
      show "cycle_view (heap_mem ?H1) (xs @ [unat dst]) ys' = cycle_view ?m xs ys"
      proof -
        have hm: "heap_mem ?H1 = ?m'" by simp
        have ysv: "map (obj_view ?m') ys' = map (obj_view ?m) ys'" using ys'(3) by simp
        show ?thesis
          unfolding ys'(1) cycle_view_def
          by (simp only: hm map_append list.map xsv ysv filter.simps append_assoc append_Cons
              append_Nil) (simp add: move(1))
      qed
      show "\<forall>q \<in> set (xs @ [unat dst]). obj_ref (heap_mem ?H1) q \<noteq> 0"
        if "\<forall>q \<in> set xs. obj_ref ?m q \<noteq> 0"
        using that move(1) map_views_eqD [OF xsv(1)] obj_view_eqD [OF xsv(2)] by auto
    qed (use move in simp_all)
  next
    case keep
    obtain ys' where ys': "ys = ?P # ys'" "sweep_inv H (p + ?sz) (p + ?sz) (xs @ [?P]) ys'"
      using sweep_keep [of H p xs ys] inv lt keep(2) by blast
    show ?thesis
    proof (rule that [OF _ ys'(2) ys'(1)])
      show "collect_loop H p dst len = collect_loop H (p + ?sz) (p + ?sz) (len + 8)"
        using unfold keep by (simp add: Let_def)
    qed (use keep ys' in \<open>simp_all add: cycle_view_def\<close>)
  qed
qed

lemma sweep_finish_post:
  assumes inv: "sweep_inv H p dst xs ys" and ge: "heap_offset H \<le> p"
  shows "\<exists>H'. collect_loop H p dst len = Some H' \<and> sweep_post H xs ys H'"
proof -
  define H' where "H' = H\<lparr>heap_offset := dst, heap_collect := 0\<rparr>"
  note F = sweep_finish [OF inv ge, folded H'_def]
  have "collect_loop H p dst len = Some H'"
    using ge by (subst collect_loop.simps) (simp add: H'_def)
  moreover have "heap_mem H' = heap_mem H" "heap_collect H' = 0" "heap_offset H' = dst"
    "heap_sz H' = heap_sz H" "heap_cid H' = heap_cid H"
    by (simp_all add: H'_def)
  moreover note sweep_invD(7) [OF inv]
  moreover have "sweep_view H' = Some (cycle_view (heap_mem H) xs ys)"
    using F(1) sweep_invD(7) [OF inv] by (simp add: sweep_view_def H'_def cycle_view_def)
  ultimately show ?thesis
    using F unfolding sweep_post_def swept_def by (simp add: heap_view_def)
qed

lemma sweep_pause_post:
  assumes inv: "sweep_inv H p dst xs ys" and lt: "p < heap_offset H"
    and q: "COLLECT_STEP_LENGTH <s len"
  shows "\<exists>H'. collect_loop H p dst len = Some H' \<and> sweep_post H xs ys H'"
proof -
  define H' where "H' = (if p \<noteq> dst then
                   let s = HEAP_SLICE dst; m1 = (heap_mem H)(s := 0, s + 4 := p - dst)
                   in H\<lparr>heap_collect := dst, heap_mem := m1(SLICE_ID m1 s := 0)\<rparr>
                 else H\<lparr>heap_collect := dst\<rparr>)"
  obtain cs where P: "heap_wf H'" "heap_collect H' = dst" "heap_offset H' = heap_offset H"
    "chain (heap_mem H') HEAP_HEADER_SIZE (unat dst) = Some xs"
    "map (obj_view (heap_mem H')) xs = map (obj_view (heap_mem H)) xs"
    "chain (heap_mem H') (unat dst) (unat (heap_offset H)) = Some cs" "length cs \<le> Suc (length ys)"
    "filter pinned (map (obj_view (heap_mem H')) cs) = filter pinned (map (obj_view (heap_mem H)) ys)"
    using sweep_pause [OF inv lt, folded H'_def] by blast
  have filt: "filter pinned (map (obj_view (heap_mem H')) (xs @ cs)) =
              filter pinned (map (obj_view (heap_mem H)) (xs @ ys))"
    by (simp only: map_append filter_append P(5) P(8))
  have "\<not> heap_offset H \<le> p" using lt by simp
  then have "collect_loop H p dst len = Some H'"
    using q by (subst collect_loop.simps) (simp only: H'_def if_False if_True)
  moreover have "slices H' = Some (xs @ cs)"
    using chain_append [OF P(4) P(6)] P(3) by (simp add: slices_def)
  moreover have "unat dst \<noteq> 0" using sweep_invD(2) [OF inv] by simp
  moreover have "ys \<noteq> []" using sweep_inv_next [OF inv lt] by blast
  moreover have "swept H'" if "\<forall>q \<in> set xs. obj_ref (heap_mem H) q \<noteq> 0"
    using that P(2,4) map_views_eqD [OF P(5)] \<open>unat dst \<noteq> 0\<close> by (auto simp: swept_def)
  moreover have "heap_sz H' = heap_sz H" "heap_cid H' = heap_cid H"
    by (simp_all add: H'_def Let_def)
  moreover have "sweep_view H' = Some (cycle_view (heap_mem H) xs ys)"
  proof -
    have "dst \<noteq> 0" using \<open>unat dst \<noteq> 0\<close> by auto
    then have "sweep_view H' = Some (cycle_view (heap_mem H') xs cs)"
      using P(2,3,4,6) by (simp add: sweep_view_def)
    also have "cycle_view (heap_mem H') xs cs = cycle_view (heap_mem H) xs ys"
      unfolding cycle_view_def by (simp only: P(5) P(8))
    finally show ?thesis .
  qed
  ultimately show ?thesis
    using P(1-7) filt unfolding sweep_post_def by (simp add: heap_view_def)
qed

lemma filter_cycle_view:
  "filter pinned (cycle_view m xs ys) = filter pinned (map (obj_view m) (xs @ ys))"
  by (simp add: cycle_view_def)

lemma sweep_post_step:
  assumes "sweep_post H1 xs1 ys1 H'"
    and "cycle_view (heap_mem H1) xs1 ys1 = cycle_view (heap_mem H) xs ys"
    and "length ys1 < length ys"
    and "(\<forall>q \<in> set xs. obj_ref (heap_mem H) q \<noteq> 0) \<Longrightarrow> (\<forall>q \<in> set xs1. obj_ref (heap_mem H1) q \<noteq> 0)"
    and "heap_sz H1 = heap_sz H" "heap_cid H1 = heap_cid H"
  shows "sweep_post H xs ys H'"
proof -
  note A = assms(1) [unfolded sweep_post_def]
  have c5: "heap_collect H' = 0 \<or> ys1 \<noteq> [] \<and>
      (\<exists>cs. chain (heap_mem H') (unat (heap_collect H')) (unat (heap_offset H')) = Some cs \<and>
            length cs \<le> Suc (length ys1))"
    using assms(1) unfolding sweep_post_def by (elim conjE)
  have cs: "heap_collect H' = 0 \<or> ys \<noteq> [] \<and>
      (\<exists>cs. chain (heap_mem H') (unat (heap_collect H')) (unat (heap_offset H')) = Some cs \<and>
            length cs \<le> Suc (length ys))"
    using c5
  proof (elim disjE conjE exE)
    fix cs
    assume "chain (heap_mem H') (unat (heap_collect H')) (unat (heap_offset H')) = Some cs"
      "length cs \<le> Suc (length ys1)"
    with assms(3) show ?thesis by (intro disjI2 conjI exI [of _ cs]) auto
  qed simp
  show ?thesis
    unfolding sweep_post_def
  proof (intro conjI)
    show "map_option (filter pinned) (heap_view H') =
          Some (filter pinned (map (obj_view (heap_mem H)) (xs @ ys)))"
      using A assms(2) filter_cycle_view [of "heap_mem H1" xs1 ys1] filter_cycle_view [of "heap_mem H" xs ys]
      by simp
    show "(\<forall>q \<in> set xs. obj_ref (heap_mem H) q \<noteq> 0) \<longrightarrow> swept H'"
      using A assms(4) by blast
  qed (use A assms(2,5,6) cs in simp_all)
qed

lemma collect_loop_sweep:
  "sweep_inv H p dst xs ys \<Longrightarrow> \<exists>H'. collect_loop H p dst len = Some H' \<and> sweep_post H xs ys H'"
proof (induction "length ys" arbitrary: H p dst xs ys len rule: less_induct)
  case less
  note inv = less.prems
  note D = sweep_invD [OF inv]
  show ?case
  proof (cases "heap_offset H \<le> p")
    case True
    then show ?thesis by (rule sweep_finish_post [OF inv])
  next
    case False
    then have lt: "p < heap_offset H" by simp
    show ?thesis
    proof (cases "COLLECT_STEP_LENGTH <s len")
      case True
      then show ?thesis by (rule sweep_pause_post [OF inv lt])
    next
      case nq: False
      obtain H1 p1 dst1 len1 xs1 ys1 where S:
        "collect_loop H p dst len = collect_loop H1 p1 dst1 len1"
        "sweep_inv H1 p1 dst1 xs1 ys1" "ys = unat p # ys1" "p = dst \<Longrightarrow> len1 = len + 8"
        "cycle_view (heap_mem H1) xs1 ys1 = cycle_view (heap_mem H) xs ys"
        "(\<forall>q \<in> set xs. obj_ref (heap_mem H) q \<noteq> 0) \<Longrightarrow> (\<forall>q \<in> set xs1. obj_ref (heap_mem H1) q \<noteq> 0)"
        "heap_sz H1 = heap_sz H" "heap_cid H1 = heap_cid H"
        using sweep_step [OF inv lt nq] by blast
      have "length ys1 < length ys" using S(3) by simp
      from less.hyps [OF this S(2), of len1] obtain H' where
        H': "collect_loop H1 p1 dst1 len1 = Some H'" "sweep_post H1 xs1 ys1 H'"
        by (elim exE conjE)
      have "sweep_post H xs ys H'"
        using H'(2) S(5) \<open>length ys1 < length ys\<close> S(6-8)
        by (rule sweep_post_step)
      with H'(1) S(1) show ?thesis by (intro exI [of _ H'] conjI) simp_all
    qed
  qed
qed

section \<open>One increment and its drivers\<close>

lemma sweep_inv_start:
  assumes wf: "heap_wf H" and act: "heap_collect H \<noteq> 0"
  obtains xs ys where "sweep_inv H (heap_collect H) (heap_collect H) xs ys"
    "slices H = Some (xs @ ys)"
    "chain (heap_mem H) (unat (heap_collect H)) (unat (heap_offset H)) = Some ys"
proof -
  let ?C = "heap_collect H" and ?m = "heap_mem H"
  from wf obtain os where W: "slices H = Some os" "unat (heap_sz H) < 2 ^ 29"
    "HEAP_HEADER_SIZE \<le> unat (heap_offset H)" "unat (heap_offset H) \<le> unat (heap_sz H)"
    "cursor_ok H os" "slots_ok (heap_slot H) ?m os" "placeholders_dead ?m os"
    by (rule heap_wfD)
  have sl: "chain ?m HEAP_HEADER_SIZE (unat (heap_offset H)) = Some os"
    using W(1) by (simp add: slices_def)
  obtain xs ys where S: "chain ?m HEAP_HEADER_SIZE (unat ?C) = Some xs"
    "chain ?m (unat ?C) (unat (heap_offset H)) = Some ys" "os = xs @ ys"
  proof (cases "unat ?C \<in> set os")
    case True
    then show ?thesis using chain_split [OF sl True] that by blast
  next
    case False
    then have "?C = heap_offset H" using W(5) act by (simp add: cursor_ok_def)
    then show ?thesis using sl that [of os "[]"] by simp
  qed
  have "HEAP_HEADER_SIZE \<le> unat ?C" using chain_le [OF S(1)] .
  moreover have "unat ?C \<le> unat (heap_offset H)" using chain_le [OF S(2)] .
  ultimately have "sweep_inv H ?C ?C xs ys"
    using W S unfolding sweep_inv_def by simp
  with W(1) S show ?thesis using that by simp
qed

lemma sweep_postD:
  assumes "sweep_post H xs ys H'"
  shows "heap_wf H'" "heap_sz H' = heap_sz H" "heap_cid H' = heap_cid H"
    "map_option (filter pinned) (heap_view H') =
       Some (filter pinned (map (obj_view (heap_mem H)) (xs @ ys)))"
    "heap_collect H' = 0 \<or> ys \<noteq> [] \<and>
      (\<exists>cs. chain (heap_mem H') (unat (heap_collect H')) (unat (heap_offset H')) = Some cs \<and>
            length cs \<le> Suc (length ys))"
    "(\<forall>q \<in> set xs. obj_ref (heap_mem H) q \<noteq> 0) \<Longrightarrow> swept H'"
    "sweep_view H' = Some (cycle_view (heap_mem H) xs ys)"
  using assms unfolding sweep_post_def by simp_all

lemma sweep_increment:
  assumes inv: "sweep_inv H p p xs ys"
  shows "\<exists>H'. collect_loop H p p 0 = Some H' \<and> sweep_post H xs ys H' \<and>
               (heap_collect H' = 0 \<or> pending H' < length ys)"
proof (cases "heap_offset H \<le> p")
  case True
  with sweep_finish_post [OF inv True, of 0] obtain H' where
    H': "collect_loop H p p 0 = Some H'" "sweep_post H xs ys H'" by blast
  moreover have "heap_collect H' = 0"
    using sweep_postD(5) [OF H'(2)] sweep_finish(1) [OF inv True] by simp
  ultimately show ?thesis by blast
next
  case False
  then have lt: "p < heap_offset H" by simp
  have nq0: "\<not> COLLECT_STEP_LENGTH <s 0" by (simp add: word_sless_alt)
  obtain H1 p1 dst1 len1 xs1 ys1 where S1:
    "collect_loop H p p 0 = collect_loop H1 p1 dst1 len1"
    "sweep_inv H1 p1 dst1 xs1 ys1" "ys = unat p # ys1" "p = p \<Longrightarrow> len1 = 0 + 8"
    "cycle_view (heap_mem H1) xs1 ys1 = cycle_view (heap_mem H) xs ys"
    "(\<forall>q \<in> set xs. obj_ref (heap_mem H) q \<noteq> 0) \<Longrightarrow> (\<forall>q \<in> set xs1. obj_ref (heap_mem H1) q \<noteq> 0)"
    "heap_sz H1 = heap_sz H" "heap_cid H1 = heap_cid H"
    using sweep_step [OF inv lt nq0] by blast
  have l1: "length ys1 < length ys" using S1(3) by simp
  show ?thesis
  proof (cases "heap_offset H1 \<le> p1")
    case True
    with sweep_finish_post [OF S1(2) True, of len1] obtain H' where
      H': "collect_loop H1 p1 dst1 len1 = Some H'" "sweep_post H1 xs1 ys1 H'" by blast
    have "heap_collect H' = 0"
      using sweep_postD(5) [OF H'(2)] sweep_finish(1) [OF S1(2) True] by simp
    moreover have "sweep_post H xs ys H'"
      using H'(2) S1(5) l1 S1(6-8) by (rule sweep_post_step)
    ultimately show ?thesis using H'(1) S1(1) by simp
  next
    case False
    then have lt1: "p1 < heap_offset H1" by simp
    have "len1 = 8" using S1(4) by simp
    then have nq8: "\<not> COLLECT_STEP_LENGTH <s len1" by (simp add: word_sless_alt)
    obtain H2 p2 dst2 len2 xs2 ys2 where S2:
      "collect_loop H1 p1 dst1 len1 = collect_loop H2 p2 dst2 len2"
      "sweep_inv H2 p2 dst2 xs2 ys2" "ys1 = unat p1 # ys2" "p1 = dst1 \<Longrightarrow> len2 = len1 + 8"
      "cycle_view (heap_mem H2) xs2 ys2 = cycle_view (heap_mem H1) xs1 ys1"
      "(\<forall>q \<in> set xs1. obj_ref (heap_mem H1) q \<noteq> 0) \<Longrightarrow> (\<forall>q \<in> set xs2. obj_ref (heap_mem H2) q \<noteq> 0)"
      "heap_sz H2 = heap_sz H1" "heap_cid H2 = heap_cid H1"
      using sweep_step [OF S1(2) lt1 nq8] by blast
    from collect_loop_sweep [OF S2(2), of len2] obtain H' where
      H': "collect_loop H2 p2 dst2 len2 = Some H'" "sweep_post H2 xs2 ys2 H'" by blast
    have l2: "length ys2 < length ys1" using S2(3) by simp
    have "sweep_post H1 xs1 ys1 H'"
      using H'(2) S2(5) l2 S2(6-8) by (rule sweep_post_step)
    then have post: "sweep_post H xs ys H'"
      using S1(5) l1 S1(6-8) by (rule sweep_post_step)
    have "heap_collect H' = 0 \<or> pending H' < length ys"
      using sweep_postD(5) [OF H'(2)] S1(3) S2(3) by (auto simp: pending_def)
    with post H'(1) S1(1) S2(1) show ?thesis by simp
  qed
qed

lemma collect_increment:
  assumes wf: "heap_wf H" and act: "heap_collect H \<noteq> 0"
  shows "\<exists>H'. collect H = Some (Inr H') \<and> heap_wf H' \<and> heap_sz H' = heap_sz H \<and>
    heap_cid H' = heap_cid H \<and> live_view H' = live_view H \<and>
    (heap_collect H' = 0 \<or> pending H' < pending H) \<and> (swept H \<longrightarrow> swept H') \<and>
    sweep_view H' = sweep_view H"
proof -
  obtain xs ys where St: "sweep_inv H (heap_collect H) (heap_collect H) xs ys"
    "slices H = Some (xs @ ys)" "chain (heap_mem H) (unat (heap_collect H)) (unat (heap_offset H)) = Some ys"
    by (rule sweep_inv_start [OF wf act])
  from sweep_increment [OF St(1)] obtain H' where
    H': "collect_loop H (heap_collect H) (heap_collect H) 0 = Some H'" "sweep_post H xs ys H'"
    "heap_collect H' = 0 \<or> pending H' < length ys"
    by blast
  note P = sweep_postD [OF H'(2)]
  have "collect H = Some (Inr H')" using act H'(1) by (simp add: collect_def)
  moreover have "live_view H' = live_view H"
    using P(4) St(2) by (simp add: live_view_def heap_view_def)
  moreover have "pending H = length ys" using St(3) by (simp add: pending_def)
  moreover have "sweep_view H' = sweep_view H"
    using P(7) act St(3) sweep_invD(7) [OF St(1)] by (simp add: sweep_view_def)
  moreover have "swept H'" if "swept H"
  proof -
    have "chain (heap_mem H) HEAP_HEADER_SIZE (unat (heap_collect H)) = Some xs"
      using sweep_invD(7) [OF St(1)] .
    with that act have "\<forall>q \<in> set xs. obj_ref (heap_mem H) q \<noteq> 0" by (simp add: swept_def)
    then show ?thesis by (rule P(6))
  qed
  ultimately show ?thesis using P(1-3) H'(3) by auto
qed

lemma collect_until_idle_wf:
  "heap_wf H \<Longrightarrow> heap_collect H \<noteq> 0 \<Longrightarrow>
   \<exists>H'. collect_until_idle H = Some (Inr H') \<and> heap_wf H' \<and> heap_collect H' = 0 \<and>
        heap_sz H' = heap_sz H \<and> heap_cid H' = heap_cid H \<and> live_view H' = live_view H \<and>
        (swept H \<longrightarrow> swept H') \<and> sweep_view H' = sweep_view H"
proof (induction "pending H" arbitrary: H rule: less_induct)
  case less
  from collect_increment [OF less.prems] obtain H1 where
    H1: "collect H = Some (Inr H1)" "heap_wf H1" "heap_sz H1 = heap_sz H" "heap_cid H1 = heap_cid H"
      "live_view H1 = live_view H" "heap_collect H1 = 0 \<or> pending H1 < pending H"
      "swept H \<longrightarrow> swept H1" "sweep_view H1 = sweep_view H"
    by blast
  show ?case
  proof (cases "heap_collect H1 = 0")
    case True
    with H1 show ?thesis by (subst collect_until_idle.simps) simp
  next
    case False
    with H1(6) have "pending H1 < pending H" by simp
    from less.hyps [OF this H1(2) False] obtain H' where
      H': "collect_until_idle H1 = Some (Inr H')" "heap_wf H'" "heap_collect H' = 0"
        "heap_sz H' = heap_sz H1" "heap_cid H' = heap_cid H1" "live_view H' = live_view H1"
        "swept H1 \<longrightarrow> swept H'" "sweep_view H' = sweep_view H1"
      by blast
    have "collect_until_idle H = collect_until_idle H1"
      using H1(1) False by (subst collect_until_idle.simps) simp
    with H' H1 show ?thesis by simp
  qed
qed

lemma collect_steps_wf:
  "heap_wf H \<Longrightarrow> heap_collect H \<noteq> 0 \<Longrightarrow>
   \<exists>H'. collect_steps n H = Some (Inr H') \<and> heap_wf H' \<and>
        heap_sz H' = heap_sz H \<and> heap_cid H' = heap_cid H \<and> live_view H' = live_view H \<and>
        (swept H \<longrightarrow> swept H') \<and> sweep_view H' = sweep_view H"
proof (induction n arbitrary: H)
  case 0
  then show ?case by simp
next
  case (Suc n)
  from collect_increment [OF Suc.prems] obtain H1 where
    H1: "collect H = Some (Inr H1)" "heap_wf H1" "heap_sz H1 = heap_sz H" "heap_cid H1 = heap_cid H"
      "live_view H1 = live_view H" "swept H \<longrightarrow> swept H1" "sweep_view H1 = sweep_view H"
    by blast
  show ?case
  proof (cases "heap_collect H1 = 0")
    case True
    with H1 show ?thesis by simp
  next
    case False
    from Suc.IH [OF H1(2) False] H1 False show ?thesis by auto
  qed
qed

end
