(* ===== verification/Bpa_Compact.thy ===== *)
theory Bpa_Compact
  imports Bpa_Sweep
begin

text \<open>
  \<^verbatim>\<open>bpa_collect\<close> of \<^verbatim>\<open>src/bpa.c\<close> on a well-formed arena: it always returns, keeps the
  arena well-formed and the pinned content unchanged; a full collection (\<open>step = 0\<close>)
  leaves exactly the pinned slices, in order, with their payloads, and the handle table
  resolves exactly the handles of those slices. Incremental collection reaches the same
  arena as a full one once it becomes idle.
\<close>

section \<open>Client loops over \<^verbatim>\<open>bpa_collect\<close>\<close>

text \<open>A client calling \<^verbatim>\<open>bpa_collect(H, s)\<close> once for each \<open>s\<close> of a list, with no other call between.\<close>

fun collect_calls :: "int list \<Rightarrow> bpa_heap \<Rightarrow> (bpa_error + bpa_heap) option" where
  "collect_calls [] H = Some (Inr H)"
| "collect_calls (s # ss) H =
     Option.bind (bpa_collect H s) (\<lambda>r. case r of Inl e \<Rightarrow> Some (Inl e) | Inr H' \<Rightarrow> collect_calls ss H')"

section \<open>Full and bounded collection\<close>


lemma views_collect_upd [simp]:
  "heap_view (H\<lparr>heap_collect := c\<rparr>) = heap_view H" "live_view (H\<lparr>heap_collect := c\<rparr>) = live_view H"
  by (simp_all add: heap_view_def live_view_def slices_def)

text \<open>Starting a cycle: an idle well-formed arena with its cursor set to the first slice.\<close>

lemma cycle_start:
  assumes wf: "heap_wf H" and idle: "heap_collect H = 0"
  defines "H2 \<equiv> H\<lparr>heap_collect := of_nat HEAP_HEADER_SIZE\<rparr>"
  shows "heap_wf H2" "swept H2" "heap_collect H2 \<noteq> 0"
proof -
  from wf obtain os where W: "slices H = Some os" "unat (heap_sz H) < 2 ^ 29"
    "HEAP_HEADER_SIZE \<le> unat (heap_offset H)" "unat (heap_offset H) \<le> unat (heap_sz H)"
    "cursor_ok H os" "slots_ok (heap_slot H) (heap_mem H) os" "placeholders_dead (heap_mem H) os"
    by (rule heap_wfD)
  have c: "unat (heap_collect H2) = HEAP_HEADER_SIZE" by (simp add: H2_def)
  then show "heap_collect H2 \<noteq> 0" by auto
  have "cursor_ok H2 os"
  proof (cases "unat (heap_offset H) = HEAP_HEADER_SIZE")
    case True
    then have "heap_collect H2 = heap_offset H2" using c by (simp add: H2_def u32_eq_unat)
    then show ?thesis by (simp add: cursor_ok_def)
  next
    case False
    with W(3) have "HEAP_HEADER_SIZE < unat (heap_offset H)" by simp
    with W(1) have "HEAP_HEADER_SIZE \<in> set os"
      by (auto simp: slices_def dest: chain_Some_cases)
    with c show ?thesis by (simp add: cursor_ok_def)
  qed
  with W show "heap_wf H2"
    by (intro heap_wfI [of H2 os]) (simp_all add: H2_def slices_def)
  show "swept H2" using c by (simp add: swept_def H2_def)
qed

lemma swept_idle_view:
  assumes "heap_wf H" "heap_collect H = 0" "swept H"
  shows "heap_view H = live_view H"
proof -
  obtain os where os: "slices H = Some os" using assms(1) by (auto elim: heap_wfD)
  then have "\<forall>q \<in> set os. obj_ref (heap_mem H) q \<noteq> 0"
    using assms(2,3) by (simp add: swept_def slices_def)
  then have "filter pinned (map (obj_view (heap_mem H)) os) = map (obj_view (heap_mem H)) os"
    by (simp add: filter_id_conv)
  with os show ?thesis by (simp add: heap_view_def live_view_def)
qed

lemma bpa_collect_first:
  assumes wf: "heap_wf H"
  obtains H1 where
    "(if step = 0 \<and> heap_collect H \<noteq> 0 then collect_until_idle H else Some (Inr H)) = Some (Inr H1)"
    "heap_wf H1" "live_view H1 = live_view H" "step = 0 \<Longrightarrow> heap_collect H1 = 0"
    "heap_sz H1 = heap_sz H" "heap_cid H1 = heap_cid H"
    "\<not> (step = 0 \<and> heap_collect H \<noteq> 0) \<Longrightarrow> H1 = H"
proof (cases "step = 0 \<and> heap_collect H \<noteq> 0")
  case True
  with collect_until_idle_wf [OF wf] that show ?thesis by auto
next
  case False
  with wf that show ?thesis by auto
qed

lemma bpa_collect_result:
  assumes wf: "heap_wf H"
  shows "\<exists>H'. bpa_collect H step = Some (Inr H') \<and> heap_wf H' \<and> live_view H' = live_view H \<and>
    heap_sz H' = heap_sz H \<and> heap_cid H' = heap_cid H \<and>
    (step = 0 \<longrightarrow> heap_collect H' = 0 \<and> heap_view H' = live_view H) \<and>
    ((step = 0 \<or> heap_collect H = 0 \<or> swept H) \<longrightarrow> swept H')"
proof -
  obtain H1 where H1: 
    "(if step = 0 \<and> heap_collect H \<noteq> 0 then collect_until_idle H else Some (Inr H)) = Some (Inr H1)"
    "heap_wf H1" "live_view H1 = live_view H" "step = 0 \<Longrightarrow> heap_collect H1 = 0"
    "heap_sz H1 = heap_sz H" "heap_cid H1 = heap_cid H"
    "\<not> (step = 0 \<and> heap_collect H \<noteq> 0) \<Longrightarrow> H1 = H"
    using bpa_collect_first [OF wf, where step = step] by blast
  define H2 where "H2 = (if heap_collect H1 = 0 then H1\<lparr>heap_collect := of_nat HEAP_HEADER_SIZE\<rparr> else H1)"
  have H2: "heap_wf H2" "heap_collect H2 \<noteq> 0" "live_view H2 = live_view H1"
    "heap_sz H2 = heap_sz H1" "heap_cid H2 = heap_cid H1"
    "step = 0 \<or> heap_collect H = 0 \<or> swept H \<Longrightarrow> swept H2"
    using cycle_start [OF H1(2)] H1(2,4,7) by (auto simp: H2_def)
  have run: "bpa_collect H step = (if step = 0 then collect_until_idle H2 else collect_steps (nat step) H2)"
    using H1(1) by (simp add: bpa_collect_def H2_def Let_def)
  show ?thesis
  proof (cases "step = 0")
    case True
    from collect_until_idle_wf [OF H2(1,2)] obtain H' where
      H': "collect_until_idle H2 = Some (Inr H')" "heap_wf H'" "heap_collect H' = 0"
        "heap_sz H' = heap_sz H2" "heap_cid H' = heap_cid H2" "live_view H' = live_view H2"
        "swept H2 \<longrightarrow> swept H'"
      by blast
    have "heap_view H' = live_view H'"
      using H'(2,3) H'(7) H2(6) True by (intro swept_idle_view) simp_all
    with H' H1 H2 run True show ?thesis by simp
  next
    case False
    from collect_steps_wf [OF H2(1,2), of "nat step"] obtain H' where
      H': "collect_steps (nat step) H2 = Some (Inr H')" "heap_wf H'"
        "heap_sz H' = heap_sz H2" "heap_cid H' = heap_cid H2" "live_view H' = live_view H2"
        "swept H2 \<longrightarrow> swept H'"
      by blast
    with H1 H2 run False show ?thesis by simp
  qed
qed

lemma bpa_collect_one:
  assumes "heap_collect H \<noteq> 0"
  shows "bpa_collect H 1 = collect H"
proof (cases "collect H")
  case (Some r)
  with assms show ?thesis by (cases r) (simp_all add: bpa_collect_def)
qed (use assms in \<open>simp add: bpa_collect_def\<close>)

lemma collect_calls_wf:
  "heap_wf H \<Longrightarrow> heap_collect H = 0 \<or> swept H \<Longrightarrow>
   \<exists>H'. collect_calls ss H = Some (Inr H') \<and> heap_wf H' \<and> live_view H' = live_view H \<and>
        (heap_collect H' = 0 \<or> swept H') \<and> (ss \<noteq> [] \<longrightarrow> swept H')"
proof (induction ss arbitrary: H)
  case Nil
  then show ?case by simp
next
  case (Cons s ss)
  from bpa_collect_result [OF Cons.prems(1), of s] Cons.prems(2) obtain H1 where
    H1: "bpa_collect H s = Some (Inr H1)" "heap_wf H1" "live_view H1 = live_view H" "swept H1"
    by blast
  from Cons.IH [OF H1(2)] H1(4) obtain H' where
    H': "collect_calls ss H1 = Some (Inr H')" "heap_wf H'" "live_view H' = live_view H1"
      "heap_collect H' = 0 \<or> swept H'" "ss \<noteq> [] \<longrightarrow> swept H'"
    by blast
  have "swept H'" using H'(5) H'(1) H1(4) by (cases ss) auto
  with H1 H' show ?case by simp
qed

section \<open>Handles across a full collection\<close>

lemma find_map_conv: "find P (map f xs) = map_option f (find (\<lambda>x. P (f x)) xs)"
  by (induction xs) auto

lemma length_filter_le_1:
  "distinct xs \<Longrightarrow> (\<And>x y. x \<in> set xs \<Longrightarrow> y \<in> set xs \<Longrightarrow> P x \<Longrightarrow> P y \<Longrightarrow> x = y) \<Longrightarrow>
   length (filter P xs) \<le> 1"
proof (induction xs)
  case (Cons x xs)
  show ?case
  proof (cases "P x")
    case True
    with Cons.prems have "filter P xs = []" by (fastforce simp: filter_empty_conv)
    with True show ?thesis by simp
  next
    case False
    with Cons show ?thesis by simp
  qed
qed simp

lemma find_filter_unique:
  "length (filter P xs) \<le> 1 \<Longrightarrow>
   find P (filter Q xs) = (case find P xs of None \<Rightarrow> None | Some x \<Rightarrow> if Q x then Some x else None)"
proof (induction xs)
  case (Cons x xs)
  show ?case
  proof (cases "P x")
    case True
    with Cons.prems have "filter P xs = []" by simp
    then have "find P (filter Q xs) = None" by (simp add: find_None_iff filter_empty_conv)
    with True show ?thesis by simp
  next
    case False
    with Cons show ?thesis by simp
  qed
qed simp

text \<open>Resolution seen through views: the slice a handle resolves to, found by id.\<close>

lemma lookup_view:
  "map_option (\<lambda>p. obj_view m ((p - 8) div 8)) (find_slice m os h) =
   (if h = 0 then None else find (\<lambda>v. fst (snd v) = h) (map (obj_view m) os))"
  by (simp add: find_slice_def find_map_conv option.map_comp o_def)

lemma view_ids_unique:
  assumes wf: "heap_wf H" and os: "slices H = Some os" and h: "h \<noteq> 0"
  shows "length (filter (\<lambda>v. fst (snd v) = h) (map (obj_view (heap_mem H)) os)) \<le> 1"
proof -
  have "distinct os"
    using chain_sorted [of "heap_mem H"] os by (simp add: slices_def strict_sorted_iff)
  moreover have "p = q" if "p \<in> set os" "q \<in> set os"
      "obj_id (heap_mem H) p = h" "obj_id (heap_mem H) q = h" for p q
    using slice_ids_unique [OF wf os that(1,2)] that(3,4) h by simp
  ultimately have "length (filter (\<lambda>q. obj_id (heap_mem H) q = h) os) \<le> 1"
    by (rule length_filter_le_1)
  then show ?thesis by (simp add: filter_map o_def obj_view_def)
qed

lemma collect_full_lookup:
  assumes wf: "heap_wf H" and col: "bpa_collect H 0 = Some (Inr H')"
  shows "map_option (\<lambda>p. obj_view (heap_mem H') ((p - 8) div 8)) (bpa_get_ptr H' h) =
         (case map_option (\<lambda>p. obj_view (heap_mem H) ((p - 8) div 8)) (bpa_get_ptr H h) of
            None \<Rightarrow> None
          | Some v \<Rightarrow> if pinned v then Some v else None)"
proof -
  from bpa_collect_result [OF wf, of 0] col have
    H': "heap_wf H'" "heap_view H' = live_view H" by auto
  obtain os where os: "slices H = Some os" using wf by (auto elim: heap_wfD)
  obtain os' where os': "slices H' = Some os'" using H'(1) by (auto elim: heap_wfD)
  have views: "map (obj_view (heap_mem H')) os' = filter pinned (map (obj_view (heap_mem H)) os)"
    using H'(2) os os' by (simp add: heap_view_def live_view_def)
  show ?thesis
  proof (cases "h = 0")
    case True
    then show ?thesis
      by (simp add: get_ptr_find_slice [OF wf os] get_ptr_find_slice [OF H'(1) os'] find_slice_def)
  next
    case False
    have "find (\<lambda>v. fst (snd v) = h) (filter pinned (map (obj_view (heap_mem H)) os)) =
          (case find (\<lambda>v. fst (snd v) = h) (map (obj_view (heap_mem H)) os) of
             None \<Rightarrow> None | Some v \<Rightarrow> if pinned v then Some v else None)"
      using view_ids_unique [OF wf os False] by (rule find_filter_unique)
    with False views show ?thesis
      by (simp add: get_ptr_find_slice [OF wf os] get_ptr_find_slice [OF H'(1) os'] lookup_view)
  qed
qed

section \<open>Properties\<close>

text \<open>
  C6: \<^verbatim>\<open>bpa_collect(H, step)\<close> returns for every step count on a well-formed arena (the
  sweep loop and both driver loops terminate), and leaves a well-formed arena whose
  pinned slices, in order and with their contents, are those of before.
\<close>

theorem bpa_collect_terminates:
  "heap_wf H \<Longrightarrow> \<exists>H'. bpa_collect H step = Some (Inr H') \<and> heap_wf H' \<and> live_view H' = live_view H"
  using bpa_collect_result [of H step] by blast

text \<open>
  C2: A full collection \<^verbatim>\<open>bpa_collect(H, 0)\<close> refines filtering: it ends idle and the
  slices of the result, read as views, are exactly the pinned slices of before.
\<close>

theorem bpa_collect_full_filters:
  assumes "heap_wf H"
  shows "\<exists>H'. bpa_collect H 0 = Some (Inr H') \<and> heap_collect H' = 0 \<and>
               heap_view H' = map_option (filter pinned) (heap_view H)"
  using bpa_collect_result [OF assms, of 0] by (auto simp: live_view_def)

text \<open>
  C8: Every sweep increment \<^verbatim>\<open>collect\<close> of an active cycle returns and makes progress:
  it ends the cycle or shortens the run of slices from the cursor to the frontier.
\<close>

theorem collect_progress:
  assumes "heap_wf H" "heap_collect H \<noteq> 0"
  shows "\<exists>H'. collect H = Some (Inr H') \<and> heap_wf H' \<and>
               (heap_collect H' = 0 \<or> pending H' < pending H)"
  using collect_increment [OF assms] by blast

text \<open>
  C9: A started cycle ends after at most \<open>pending H + 1\<close> calls of \<^verbatim>\<open>bpa_collect(H, 1)\<close>.
\<close>

theorem cycle_ends_within_pending:
  "heap_wf H \<Longrightarrow> heap_collect H \<noteq> 0 \<Longrightarrow>
   \<exists>n \<le> pending H. \<exists>H'. collect_calls (replicate (Suc n) 1) H = Some (Inr H') \<and> heap_collect H' = 0"
proof (induction "pending H" arbitrary: H rule: less_induct)
  case less
  from collect_increment [OF less.prems] obtain H1 where
    H1: "collect H = Some (Inr H1)" "heap_wf H1" "heap_collect H1 = 0 \<or> pending H1 < pending H"
    by blast
  have step: "collect_calls (replicate (Suc n) 1) H = collect_calls (replicate n 1) H1" for n
    using H1(1) bpa_collect_one [OF less.prems(2)] by simp
  show ?case
  proof (cases "heap_collect H1 = 0")
    case True
    then show ?thesis using step [of 0] by (intro exI [of _ 0]) simp
  next
    case False
    with H1(3) have lt: "pending H1 < pending H" by simp
    from less.hyps [OF lt H1(2) False] obtain n H' where
      "n \<le> pending H1" "collect_calls (replicate (Suc n) 1) H1 = Some (Inr H')" "heap_collect H' = 0"
      by blast
    with lt step [of "Suc n"] show ?thesis by (intro exI [of _ "Suc n"]) auto
  qed
qed

text \<open>
  C7: Compaction does not depend on the step granularity: from an idle arena, any
  nonempty sequence of \<^verbatim>\<open>bpa_collect\<close> calls that leaves the arena idle leaves the same
  slices (views) as one \<^verbatim>\<open>bpa_collect(H, 0)\<close>.
\<close>

theorem incremental_equals_full:
  assumes wf: "heap_wf H" and idle: "heap_collect H = 0" and ss: "ss \<noteq> []"
  shows "\<exists>H' H''. collect_calls ss H = Some (Inr H') \<and> bpa_collect H 0 = Some (Inr H'') \<and>
                 (heap_collect H' = 0 \<longrightarrow> heap_view H' = heap_view H'')"
proof -
  from collect_calls_wf [OF wf, of ss] idle ss obtain H' where
    H': "collect_calls ss H = Some (Inr H')" "heap_wf H'" "live_view H' = live_view H" "swept H'"
    by blast
  from bpa_collect_result [OF wf, of 0] obtain H'' where
    H'': "bpa_collect H 0 = Some (Inr H'')" "heap_view H'' = live_view H"
    by auto
  have "heap_collect H' = 0 \<longrightarrow> heap_view H' = heap_view H''"
    using swept_idle_view [OF H'(2) _ H'(4)] H'(3) H''(2) by simp
  with H' H'' show ?thesis by blast
qed

text \<open>
  C3: A handle pinned across a full collection still resolves afterwards, possibly at
  another offset, to a slice with the same reference count, id and payload.
\<close>

theorem bpa_collect_keeps_pinned:
  assumes wf: "heap_wf H" and col: "bpa_collect H 0 = Some (Inr H')"
    and get: "bpa_get_ptr H h = Some p" and pin: "slice_ref (heap_mem H) (p - 8) \<noteq> 0"
  shows "\<exists>p'. bpa_get_ptr H' h = Some p' \<and>
              obj_view (heap_mem H') ((p' - 8) div 8) = obj_view (heap_mem H) ((p - 8) div 8)"
proof -
  obtain os where os: "slices H = Some os" using wf by (auto elim: heap_wfD)
  from resolved_slice [OF wf os get] obtain q where q: "p - 8 = 8 * q" by blast
  have "pinned (obj_view (heap_mem H) ((p - 8) div 8))" using pin q by simp
  with collect_full_lookup [OF wf col, of h] get show ?thesis
    by (cases "bpa_get_ptr H' h") auto
qed

text \<open>
  C4: After a full collection only handles of slices that were pinned before resolve:
  released and unknown handles miss.
\<close>

theorem bpa_collect_reclaims:
  assumes wf: "heap_wf H" and col: "bpa_collect H 0 = Some (Inr H')"
    and get': "bpa_get_ptr H' h \<noteq> None"
  shows "\<exists>p. bpa_get_ptr H h = Some p \<and> slice_ref (heap_mem H) (p - 8) \<noteq> 0"
proof -
  obtain os where os: "slices H = Some os" using wf by (auto elim: heap_wfD)
  from collect_full_lookup [OF wf col, of h] get' obtain p where
    p: "bpa_get_ptr H h = Some p" "pinned (obj_view (heap_mem H) ((p - 8) div 8))"
    by (auto split: option.splits if_splits)
  from resolved_slice [OF wf os p(1)] obtain q where q: "p - 8 = 8 * q" by blast
  with p show ?thesis by simp
qed

end
