(* ===== verification/Bpa_Interleave.thy ===== *)
theory Bpa_Interleave
  imports Bpa_Alloc Bpa_Compact
begin

text \<open>
  Operations interleaved with a paused compaction cycle. \<^verbatim>\<open>collect\<close> re-reads
  \<^verbatim>\<open>H->offset\<close> on every iteration, so a slice created while a cycle is paused lies in
  the cycle's unvisited run: the cycle visits it, and reclaims it when it is unpinned.
  \<open>sweep_view\<close> (what the arena will hold when the cycle completes) is unchanged by
  such a create.
\<close>

lemma sweep_view_idle: "heap_collect H = 0 \<Longrightarrow> sweep_view H = heap_view H"
  by (simp add: sweep_view_def heap_view_def slices_def cycle_view_def Let_def split: option.split)

lemma create_keeps_sweep_view:
  assumes wf: "heap_wf H" and act: "heap_collect H \<noteq> 0" and req: "unat sz < 2 ^ 32"
    and run: "bpa_create H sz = (H1, h)" and ok: "h \<noteq> 0"
  shows "sweep_view H1 = sweep_view H"
proof -
  note F = bpa_create_success_facts [OF wf req run ok]
  let ?m = "heap_mem H" and ?m1 = "heap_mem H1" and ?C = "unat (heap_collect H)"
  let ?O = "unat (heap_offset H)" and ?n = "(unat sz + 19) div 8"
  obtain xs ys where St: "sweep_inv H (heap_collect H) (heap_collect H) xs ys"
    "chain ?m ?C ?O = Some ys"
    by (rule sweep_inv_start [OF wf act])
  note D = sweep_invD [OF St(1)]
  have Ob: "?O < 2 ^ 29" using D(1,5) by simp
  have Cb: "?C < 2 ^ 29" using D(4) Ob by simp
  note xs = chain_views_frame [OF D(7) Cb, of ?m1] and ys = chain_views_frame [OF St(2) Ob, of ?m1]
  have xs': "chain ?m1 HEAP_HEADER_SIZE ?C = Some xs" "map (obj_view ?m1) xs = map (obj_view ?m) xs"
    using xs F(12) D(4) by simp_all
  have ys': "chain ?m1 ?C ?O = Some ys" "map (obj_view ?m1) ys = map (obj_view ?m) ys"
    using ys F(12) by simp_all
  have "2 \<le> ?n" using slice_units_ge2 [OF req] slice_units_nowrap [OF req] by simp
  then have "chain ?m1 ?O (unat (heap_offset H1)) = Some [?O]"
    using chain_single [of ?m1 ?O] F(2,5) by simp
  with ys'(1) have rest: "chain ?m1 ?C (unat (heap_offset H1)) = Some (ys @ [?O])"
    by (rule chain_append)
  have "sweep_view H1 = Some (cycle_view ?m1 xs (ys @ [?O]))"
    using act F(10) xs'(1) rest by (simp add: sweep_view_def)
  also have "cycle_view ?m1 xs (ys @ [?O]) = map (obj_view ?m1) xs @ filter pinned (map (obj_view ?m1) ys)"
    using F(4) by (simp add: cycle_view_def)
  also have "\<dots> = cycle_view ?m xs ys"
    unfolding xs'(2) ys'(2) cycle_view_def ..
  also have "Some (cycle_view ?m xs ys) = sweep_view H"
    using act D(7) St(2) by (simp add: sweep_view_def)
  finally show ?thesis .
qed

text \<open>The id of a successful create is new: no slice of the arena carries it.\<close>

lemma create_id_fresh:
  assumes wf: "heap_wf H" and os: "slices H = Some os"
    and run: "bpa_create H sz = (H1, h)" and ok: "h \<noteq> 0"
  shows "\<forall>q \<in> set os. obj_id (heap_mem H) q \<noteq> h"
proof
  fix q
  assume q: "q \<in> set os"
  obtain k where "alloc_slot_loop MAX_SLOT (heap_slot H) (heap_cid H) = (h, Some k)"
    using bpa_create_cases [OF run] ok by blast
  then have free: "heap_slot H (slot_index h) = 0"
    using alloc_slot_loop_Some by blast
  show "obj_id (heap_mem H) q \<noteq> h"
  proof
    assume idq: "obj_id (heap_mem H) q = h"
    have "heap_slot H (slot_index h) = of_nat q"
      using slot_of_slice [OF wf os q] idq ok by simp
    moreover have "0 < q" "q < 2 ^ 32" using slices_bounds [OF wf os q] by simp_all
    ultimately show False using free of_nat_u32_inj [of q 0] by simp
  qed
qed

lemma sweep_view_within:
  assumes wf: "heap_wf H" and act: "heap_collect H \<noteq> 0"
  obtains os V where "slices H = Some os" "sweep_view H = Some V"
    "set V \<subseteq> obj_view (heap_mem H) ` set os"
proof -
  obtain xs ys where St: "sweep_inv H (heap_collect H) (heap_collect H) xs ys"
    "slices H = Some (xs @ ys)" "chain (heap_mem H) (unat (heap_collect H)) (unat (heap_offset H)) = Some ys"
    using sweep_inv_start [OF wf act] by blast
  have "sweep_view H = Some (cycle_view (heap_mem H) xs ys)"
    using act sweep_invD(7) [OF St(1)] St(3) by (simp add: sweep_view_def)
  moreover have "set (cycle_view (heap_mem H) xs ys) \<subseteq> obj_view (heap_mem H) ` set (xs @ ys)"
    by (auto simp: cycle_view_def)
  ultimately show thesis using St(2) that by blast
qed

text \<open>
  C10 A slice created while a cycle is paused, and never pinned, does not survive
  that cycle: the handle resolves after the create and no longer resolves once the cycle
  has been run to its end.
\<close>

theorem paused_create_swept:
  assumes wf: "heap_wf H" and act: "heap_collect H \<noteq> 0" and req: "unat sz < 2 ^ 32"
    and run: "bpa_create H sz = (H1, h)" and ok: "h \<noteq> 0"
  shows "bpa_get_ptr H1 h \<noteq> None \<and>
         (\<exists>H2. collect_until_idle H1 = Some (Inr H2) \<and> bpa_get_ptr H2 h = None)"
proof -
  note F = bpa_create_success_facts [OF wf req run ok]
  obtain os V where os: "slices H = Some os" and V: "sweep_view H = Some V"
    and Vin: "set V \<subseteq> obj_view (heap_mem H) ` set os"
    by (rule sweep_view_within [OF wf act])
  let ?O = "unat (heap_offset H)"
  have os1: "slices H1 = Some (os @ [?O])" using F(1) os by simp
  have "bpa_get_ptr H1 (obj_id (heap_mem H1) ?O) = Some (8 * ?O + 8)"
    using bpa_get_ptr_of_slice [OF F(11) os1, of ?O] F(3) ok by simp
  then have live: "bpa_get_ptr H1 h \<noteq> None" using F(3) by simp
  have act1: "heap_collect H1 \<noteq> 0" using F(10) act by simp
  obtain H2 where H2: "collect_until_idle H1 = Some (Inr H2)" "heap_wf H2" "heap_collect H2 = 0"
    "sweep_view H2 = sweep_view H1"
    using collect_until_idle_wf [OF F(11) act1] by blast
  obtain os2 where os2: "slices H2 = Some os2" using H2(2) by (blast elim: heap_wfD)
  have "Some (map (obj_view (heap_mem H2)) os2) = Some V"
    using H2(3,4) sweep_view_idle [of H2] create_keeps_sweep_view [OF wf act req run ok] V os2
    by (simp add: heap_view_def)
  then have V2: "map (obj_view (heap_mem H2)) os2 = V" by simp
  have fresh: "\<forall>q \<in> set os. obj_id (heap_mem H) q \<noteq> h"
    by (rule create_id_fresh [OF wf os run ok])
  have "\<forall>v \<in> set V. fst (snd v) \<noteq> h"
  proof
    fix v
    assume "v \<in> set V"
    then obtain q where "q \<in> set os" "v = obj_view (heap_mem H) q" using Vin by blast
    then show "fst (snd v) \<noteq> h" using fresh by simp
  qed
  then have "find (\<lambda>v. fst (snd v) = h) V = None" unfolding find_None_iff by blast
  then have "find_slice (heap_mem H2) os2 h = None"
    using lookup_view [of "heap_mem H2" os2 h] V2 ok by simp
  then have "bpa_get_ptr H2 h = None"
    using get_ptr_find_slice [OF H2(2) os2] by simp
  with live H2(1) show ?thesis by blast
qed

end
