(* ===== verification/Bpa_Bytes.thy ===== *)
theory Bpa_Bytes
  imports Prelude
begin

text \<open>
  Byte access to the cell memory, for the client code of \<^verbatim>\<open>src/testbpa.c\<close>, which fills
  payloads with \<^verbatim>\<open>memset\<close> and prints them byte by byte through a \<^verbatim>\<open>char *\<close>. A cell
  holds the 4 bytes at its offset in little-endian order (byte \<open>k\<close> of the cell at \<open>a\<close> is
  the byte at address \<open>a + k\<close>). The lemmas are the round trips: a byte read after a
  \<^verbatim>\<open>memset\<close> over it gives the byte written, and reads outside the filled range, or
  through a \<^verbatim>\<open>memmove\<close> of whole cells, are as before.
\<close>

unbundle bit_operations_syntax

type_synonym u8 = "8 word"

definition cell_byte :: "u32 \<Rightarrow> nat \<Rightarrow> u8" where
  "cell_byte c k = ucast (drop_bit (8 * k) c)"

definition set_byte :: "nat \<Rightarrow> u8 \<Rightarrow> u32 \<Rightarrow> u32" where
  "set_byte k v c = (c AND NOT (push_bit (8 * k) (mask 8))) OR push_bit (8 * k) (ucast v)"

definition mem_byte :: "memory \<Rightarrow> nat \<Rightarrow> u8" where
  "mem_byte m a = cell_byte (m (a - a mod 4)) (a mod 4)"

text \<open>\<^verbatim>\<open>memset(p, v, n)\<close>: every byte in \<open>[p, p + n)\<close> becomes \<open>v\<close>.\<close>

definition memset :: "memory \<Rightarrow> nat \<Rightarrow> u8 \<Rightarrow> nat \<Rightarrow> memory" where
  "memset m p v n =
     (\<lambda>a. foldr (\<lambda>k c. if p \<le> a + k \<and> a + k < p + n then set_byte k v c else c) [0..<4] (m a))"

section \<open>Bytes of a cell\<close>

lemma cell_byte_set_byte:
  assumes "j < 4" "k < 4"
  shows "cell_byte (set_byte k v c) j = (if j = k then v else cell_byte c j)"
proof (rule bit_word_eqI)
  fix i
  assume i: "i < LENGTH(8)"
  have lt: "8 * j + i < 32" using assms(1) i by simp
  show "bit (cell_byte (set_byte k v c) j) i = bit (if j = k then v else cell_byte c j) i"
  proof (cases "j = k")
    case True
    then show ?thesis
      using i lt by (auto simp: cell_byte_def set_byte_def bit_simps bit_mask_iff)
  next
    case False
    then have "\<not> (8 * k \<le> 8 * j + i \<and> 8 * j + i < 8 * k + 8)" using i by auto
    then show ?thesis
      using i lt False by (auto simp: cell_byte_def set_byte_def bit_simps bit_mask_iff dest: bit_imp_le_length)
  qed
qed

lemma cell_byte_foldr:
  assumes "j < 4" "\<forall>k \<in> set ks. k < 4"
  shows "cell_byte (foldr (\<lambda>k c. if P k then set_byte k v c else c) ks c0) j =
         (if j \<in> set ks \<and> P j then v else cell_byte c0 j)"
  using assms(2) by (induction ks) (auto simp: cell_byte_set_byte [OF assms(1)])

section \<open>Round trips\<close>

lemma mem_byte_memset:
  "mem_byte (memset m p v n) a = (if p \<le> a \<and> a < p + n then v else mem_byte m a)"
proof -
  have a: "a - a mod 4 + a mod 4 = a" by simp
  show ?thesis
    unfolding mem_byte_def memset_def
    by (subst cell_byte_foldr) (auto simp: a)
qed

lemma foldr_skip:
  "\<forall>k \<in> set ks. \<not> P k \<Longrightarrow> foldr (\<lambda>k c. if P k then f k c else c) ks c0 = c0"
  by (induction ks) auto

lemma memset_outside [mem_frame]:
  "a + 4 \<le> p \<or> p + n \<le> a \<Longrightarrow> memset m p v n a = m a"
  unfolding memset_def by (rule foldr_skip) auto

lemma mem_byte_upd:
  assumes "a < x \<or> x + 4 \<le> a"
  shows "mem_byte (m(x := w)) a = mem_byte m a"
proof -
  have "a mod 4 < 4" by simp
  then have "x \<noteq> a - a mod 4" using assms by auto
  then show ?thesis by (simp add: mem_byte_def)
qed

lemma mem_byte_memmove:
  assumes "dst mod 4 = 0" "src mod 4 = 0" "n mod 4 = 0"
  shows "mem_byte (memmove m dst src n) a =
         (if dst \<le> a \<and> a < dst + n then mem_byte m (a - dst + src) else mem_byte m a)"
proof -
  obtain d s e where de: "dst = 4 * d" "src = 4 * s" "n = 4 * e"
    using assms by (metis mult_div_mod_eq add_0_right)
  obtain q r where a: "a = 4 * q + r" "r < 4" by (metis mod_less_divisor mult_div_mod_eq zero_less_numeral)
  have ar: "a mod 4 = r" "a - r = 4 * q" using a by simp_all
  have iff: "(dst \<le> 4 * q \<and> 4 * q < dst + n) = (dst \<le> a \<and> a < dst + n)"
    unfolding a de using a(2) by presburger
  have L: "memmove m dst src n (4 * q) =
           (if dst \<le> a \<and> a < dst + n then m (4 * q - dst + src) else m (4 * q))"
    using iff by (simp add: memmove_def)
  show ?thesis
  proof (cases "dst \<le> a \<and> a < dst + n")
    case True
    then have "d \<le> q" using a de by simp
    then have eq: "a - dst + src = 4 * (q - d + s) + r" "4 * q - dst + src = 4 * (q - d + s)"
      using a de by simp_all
    have "(4 * (q - d + s) + r) mod 4 = r"
      using a(2) by (metis add.commute mod_less mod_mult_self2)
    then show ?thesis
      using True L unfolding mem_byte_def ar eq by simp
  next
    case False
    then show ?thesis using L unfolding mem_byte_def ar by (simp only: if_False)
  qed
qed

lemma bytes_const:
  "(\<And>i. i < k \<Longrightarrow> mem_byte m (p + i) = v) \<Longrightarrow> map (\<lambda>i. mem_byte m (p + i)) [0..<k] = replicate k v"
  by (rule nth_equalityI) auto

lemma memset_bytes:
  "k \<le> n \<Longrightarrow> map (\<lambda>i. mem_byte (memset m p v n) (p + i)) [0..<k] = replicate k v"
  by (rule bytes_const) (simp add: mem_byte_memset)

end
