(* ===== verification/Bpa_Init.thy ===== *)
theory Bpa_Init
  imports Bpa_Heap
begin

text \<open>
  Arena initialisation, \<^verbatim>\<open>bpa_init\<close> of \<^verbatim>\<open>src/bpa.c\<close>. The buffer is the caller's
  memory with whatever it held before: the model takes it as a \<open>bpa_heap\<close> whose fields
  are those prior contents and returns it with the four header fields written. The slot
  array is not written by the source, so it keeps the buffer's prior contents.
\<close>

definition bpa_init :: "bpa_heap \<Rightarrow> u64 \<Rightarrow> bpa_heap option" where
  "bpa_init buf sz0 =
     (let sz = sz0 div ALIGN_SIZE in
      if sz \<noteq> ucast (ucast sz :: u32) then None
      else if unat sz \<le> HEAP_HEADER_SIZE then None
      else Some (buf\<lparr>heap_sz := ucast sz, heap_offset := of_nat HEAP_HEADER_SIZE,
                     heap_collect := 0, heap_cid := 0\<rparr>))"

lemma unat_u64_div8: "unat ((sz0 :: u64) div 8) = unat sz0 div 8"
  by (simp add: unat_div)

lemma unat_ucast_u64_small:
  "unat (x :: u64) < 2 ^ 32 \<Longrightarrow> unat (ucast x :: u32) = unat x"
  by (simp add: unsigned_ucast_eq take_bit_eq_mod)

lemma bpa_init_Some:
  assumes "bpa_init buf sz0 = Some H"
  shows "unat (heap_sz H) = unat sz0 div 8" "HEAP_HEADER_SIZE < unat sz0 div 8"
    "heap_offset H = of_nat HEAP_HEADER_SIZE" "heap_collect H = 0" "heap_cid H = 0"
    "heap_slot H = heap_slot buf" "heap_mem H = heap_mem buf"
proof -
  let ?sz = "sz0 div ALIGN_SIZE"
  from assms have fit: "?sz = ucast (ucast ?sz :: u32)" and big: "HEAP_HEADER_SIZE < unat ?sz"
    and H: "H = buf\<lparr>heap_sz := ucast ?sz, heap_offset := of_nat HEAP_HEADER_SIZE,
                    heap_collect := 0, heap_cid := 0\<rparr>"
    by (auto simp: bpa_init_def Let_def split: if_splits)
  have "unat (ucast (ucast ?sz :: u32) :: u64) = unat (ucast ?sz :: u32)"
    by (simp add: unsigned_ucast_eq unsigned_take_bit_eq)
  then have "unat (ucast ?sz :: u32) = unat ?sz"
    using fit by simp
  then show "unat (heap_sz H) = unat sz0 div 8"
    using H by (simp add: unat_u64_div8)
  from big show "HEAP_HEADER_SIZE < unat sz0 div 8"
    by (simp add: unat_u64_div8)
qed (use assms in \<open>auto simp: bpa_init_def Let_def split: if_splits\<close>)

lemma slots_ok_empty: "slots_ok (\<lambda>_. 0) m []"
  by (simp add: slots_ok_def)

text \<open>
  C19 A buffer below 4 GiB whose slot array is zero becomes a well-formed, empty, idle
  arena: no slices, the frontier just past the header.
\<close>

theorem bpa_init_wf:
  assumes "bpa_init buf sz0 = Some H" "heap_slot buf = (\<lambda>_. 0)" "unat sz0 < 2 ^ 32"
  shows "heap_wf H \<and> slices H = Some [] \<and> heap_collect H = 0"
proof -
  note init = bpa_init_Some [OF assms(1)]
  have off: "unat (heap_offset H) = HEAP_HEADER_SIZE"
    using init(3) by (simp add: unat_of_nat_u32)
  then have sl: "slices H = Some []"
    by (simp add: slices_def)
  have "unat (heap_sz H) < 2 ^ 29"
    using init(1) assms(3) by simp
  moreover have "cursor_ok H []"
    using init(4) by (simp add: cursor_ok_def)
  moreover have "slots_ok (heap_slot H) (heap_mem H) []"
    using init(6) assms(2) by (simp add: slots_ok_empty)
  moreover have "placeholders_dead (heap_mem H) []"
    by (simp add: placeholders_dead_def)
  ultimately have "heap_wf H"
    using sl off init(1,2) by (intro heap_wfI [OF sl]) simp_all
  with sl init(4) show ?thesis by simp
qed

end
