(* ===== verification/Bpa_Dump.thy ===== *)
theory Bpa_Dump
  imports Bpa_Access
begin

text \<open>
  The debug dump \<^verbatim>\<open>bpa_dump\<close> of \<^verbatim>\<open>src/bpa.c\<close>, as the list of the lines it prints:
  the header line, one line per used slot of the handle table (in index order), and one
  line per slice met by its walk from the end of the header to the frontier. The printed
  values are kept at the width and with the arithmetic of the source (\<^verbatim>\<open>H->sz * 8 / 1024\<close>
  and \<^verbatim>\<open>s->sz * 8\<close> are 32-bit); the \<^verbatim>\<open>printf\<close> formatting itself is not modelled. The walk
  advances a 32-bit \<^verbatim>\<open>offset\<close> by each slice's size, so on a corrupted arena (a size of
  \<open>0\<close>) it need not stop: it is a \<^theory_text>\<open>partial_function (option)\<close>, and on a well-formed
  arena it returns the tiling \<open>chain\<close>.
\<close>

section \<open>Operations\<close>

datatype dump_line =
    DumpHeader u32 u32          \<comment> \<open>\<^verbatim>\<open>H->sz * 8 / 1024\<close>, \<^verbatim>\<open>H->offset * 8\<close>\<close>
  | DumpSlot nat u32            \<comment> \<open>slot index \<^verbatim>\<open>i\<close>, its offset \<^verbatim>\<open>pt\<close>\<close>
  | DumpSlice u32 u32 u32 u32   \<comment> \<open>\<^verbatim>\<open>*SLICE_ID(s)\<close>, \<^verbatim>\<open>offset\<close>, \<^verbatim>\<open>s->ref\<close>, \<^verbatim>\<open>s->sz * 8\<close>\<close>

definition dump_slots :: "bpa_heap \<Rightarrow> dump_line list" where
  "dump_slots H =
     map (\<lambda>i. DumpSlot i (heap_slot H (of_nat i))) (filter (\<lambda>i. heap_slot H (of_nat i) \<noteq> 0) [0..<MAX_SLOT])"

partial_function (option) dump_walk :: "bpa_heap \<Rightarrow> u32 \<Rightarrow> dump_line list option" where
  "dump_walk H off =
     (if off < heap_offset H then
        let s = HEAP_SLICE off; m = heap_mem H in
        Option.bind (dump_walk H (off + slice_sz m s))
          (\<lambda>ls. Some (DumpSlice (slice_id m s) off (slice_ref m s) (slice_sz m s * 8) # ls))
      else Some [])"

declare dump_walk.simps [code]

definition bpa_dump :: "bpa_heap \<Rightarrow> dump_line list option" where
  "bpa_dump H =
     map_option (\<lambda>ls. DumpHeader (heap_sz H * 8 div 1024) (heap_offset H * 8) # dump_slots H @ ls)
       (dump_walk H (of_nat HEAP_HEADER_SIZE))"

text \<open>The line the walk prints for the slice at unit offset \<open>q\<close>.\<close>

definition slice_line :: "memory \<Rightarrow> nat \<Rightarrow> dump_line" where
  "slice_line m q = DumpSlice (obj_id m q) (of_nat q) (obj_ref m q) (slice_sz m (8 * q) * 8)"

section \<open>The walk is the tiling\<close>

lemma dump_walk_chain:
  assumes "chain m a b = Some os" "m = heap_mem H" "b = unat (heap_offset H)" "b < 2 ^ 29"
  shows "dump_walk H (of_nat a) = Some (map (slice_line m) os)"
  using assms
proof (induction m a b arbitrary: os rule: chain.induct)
  case (1 m a b)
  let ?m = "m"
  have ab: "a \<le> b" using chain_le [OF "1.prems"(1)] .
  show ?case
  proof (cases "a < b")
    case False
    with ab "1.prems" have "of_nat a = heap_offset H" "os = []"
      by (simp_all add: chain.simps [of _ a b])
    then show ?thesis by (simp add: dump_walk.simps)
  next
    case True
    from chain_Some_cases [OF "1.prems"(1)] True obtain os' where
      os: "2 \<le> obj_sz ?m a" "os = a # os'" "chain ?m (a + obj_sz ?m a) b = Some os'"
      by auto
    have a29: "a < 2 ^ 29" using True "1.prems"(4) by simp
    have lt: "(of_nat a :: u32) < heap_offset H"
      using True a29 "1.prems"(3,4) by (simp add: u32_less_unat unat_of_nat_u32)
    have sl: "HEAP_SLICE (of_nat a) = 8 * a"
      using a29 by (simp add: HEAP_SLICE_nowrap unat_of_nat_u32)
    have "a + obj_sz ?m a \<le> b" using chain_le [OF os(3)] .
    then have nxt: "of_nat a + slice_sz ?m (8 * a) = (of_nat (a + obj_sz ?m a) :: u32)"
      by simp
    have IH: "dump_walk H (of_nat (a + obj_sz ?m a)) = Some (map (slice_line ?m) os')"
      using "1.IH" [OF _ _ os(3) "1.prems"(2,3,4)] True os(1) by simp
    show ?thesis
      using lt sl nxt IH os(2) "1.prems"(2) by (subst dump_walk.simps) (simp add: slice_line_def Let_def)
  qed
qed

section \<open>The table lines\<close>

lemma dump_slots_mem:
  "DumpSlot i pt \<in> set (dump_slots H) \<longleftrightarrow>
   i < MAX_SLOT \<and> pt = heap_slot H (of_nat i) \<and> pt \<noteq> 0"
  by (auto simp: dump_slots_def)

lemma dump_slots_only_slots: "DumpSlice uid pt r s \<notin> set (dump_slots H)"
  by (auto simp: dump_slots_def)

lemma dump_slots_support:
  assumes "\<forall>i < MAX_SLOT. heap_slot H (of_nat i) \<noteq> 0 \<longleftrightarrow> i \<in> set ks"
    and "\<forall>i \<in> set ks. i < MAX_SLOT" and "sorted_wrt (<) ks"
  shows "dump_slots H = map (\<lambda>i. DumpSlot i (heap_slot H (of_nat i))) ks"
proof -
  have "filter (\<lambda>i. heap_slot H (of_nat i) \<noteq> 0) [0..<MAX_SLOT] = ks"
  proof (rule sorted_distinct_set_unique)
    show "set (filter (\<lambda>i. heap_slot H (of_nat i) \<noteq> 0) [0..<MAX_SLOT]) = set ks"
      using assms(1,2) by auto
  qed (use assms(3) in \<open>simp_all add: sorted_wrt_filter strict_sorted_iff\<close>)
  then show ?thesis by (simp add: dump_slots_def)
qed

lemma u16_of_nat_eq: "i < 65536 \<Longrightarrow> ((of_nat i :: u16) = w) = (i = unat w)"
  by (auto simp: unat_of_nat)

lemma slot_index_unat: "unat (slot_index uid) < MAX_SLOT" "of_nat (unat (slot_index uid)) = slot_index uid"
proof -
  have "unat (slot_index uid) < 2 ^ LENGTH(16)" by (rule unsigned_less)
  then show "unat (slot_index uid) < MAX_SLOT" by (simp add: MAX_SLOT_def)
qed simp

lemma dump_walk_slices:
  assumes wf: "heap_wf H" and os: "slices H = Some os"
  shows "dump_walk H (of_nat HEAP_HEADER_SIZE) = Some (map (slice_line (heap_mem H)) os)"
proof -
  from wf have "unat (heap_offset H) < 2 ^ 29" by (auto elim: heap_wfD)
  with os show ?thesis
    by (intro dump_walk_chain [OF _ refl]) (simp_all add: slices_def)
qed

lemma slice_lines_mem:
  "DumpSlot i pt \<notin> set (map (slice_line m) os)"
  "DumpSlice uid pt r s \<in> set (map (slice_line m) os) \<longleftrightarrow>
   (\<exists>q \<in> set os. uid = obj_id m q \<and> pt = of_nat q \<and> r = obj_ref m q \<and> s = slice_sz m (8 * q) * 8)"
  by (auto simp: slice_line_def)

section \<open>Properties of the dump\<close>

text \<open>
  C21 On a well-formed arena \<^verbatim>\<open>bpa_dump\<close> returns, and prints the header, the used slots
  in index order, and then exactly the slices of the arena, in address order, each with
  its id, offset, reference count and size in bytes.
\<close>

theorem bpa_dump_slices:
  assumes wf: "heap_wf H" and os: "slices H = Some os"
  shows "bpa_dump H = Some (DumpHeader (heap_sz H * 8 div 1024) (heap_offset H * 8) #
                            dump_slots H @ map (slice_line (heap_mem H)) os)"
  using dump_walk_slices [OF wf os] by (simp add: bpa_dump_def)

text \<open>
  C22 On a well-formed arena the dump is consistent: a slot line \<open>i, pt\<close> is printed exactly
  when a slice line with a nonzero id at offset \<open>pt\<close> is printed whose id is \<open>i\<close> modulo
  \<^verbatim>\<open>MAX_SLOT\<close>.
\<close>

theorem bpa_dump_consistent:
  assumes wf: "heap_wf H"
  shows "\<exists>ls. bpa_dump H = Some ls \<and>
           (\<forall>i pt. DumpSlot i pt \<in> set ls \<longleftrightarrow>
                   (\<exists>uid r s. DumpSlice uid pt r s \<in> set ls \<and> uid \<noteq> 0 \<and> unat (slot_index uid) = i))"
proof -
  obtain os where os: "slices H = Some os" using wf by (auto elim: heap_wfD)
  let ?m = "heap_mem H"
  let ?ls = "DumpHeader (heap_sz H * 8 div 1024) (heap_offset H * 8) # dump_slots H @ map (slice_line ?m) os"
  have D: "bpa_dump H = Some ?ls"
    using dump_walk_slices [OF wf os] by (simp add: bpa_dump_def)
  have "DumpSlot i pt \<in> set ?ls \<longleftrightarrow>
        (\<exists>uid r s. DumpSlice uid pt r s \<in> set ?ls \<and> uid \<noteq> 0 \<and> unat (slot_index uid) = i)" for i pt
  proof
    assume "DumpSlot i pt \<in> set ?ls"
    then have i: "i < MAX_SLOT" "pt = heap_slot H (of_nat i)" "pt \<noteq> 0"
      using slice_lines_mem(1) dump_slots_mem by auto
    note U = slot_used [OF wf os i(3) [unfolded i(2)]]
    have "unat (slot_index (obj_id ?m (unat pt))) = i"
      using U(3) i(1,2) by (simp add: MAX_SLOT_def unat_of_nat)
    moreover have "DumpSlice (obj_id ?m (unat pt)) pt (obj_ref ?m (unat pt))
                     (slice_sz ?m (8 * unat pt) * 8) \<in> set ?ls"
      using U(1) i(2) slice_lines_mem(2) by fastforce
    ultimately show "\<exists>uid r s. DumpSlice uid pt r s \<in> set ?ls \<and> uid \<noteq> 0 \<and> unat (slot_index uid) = i"
      using U(2) [folded i(2)] by blast
  next
    assume "\<exists>uid r s. DumpSlice uid pt r s \<in> set ?ls \<and> uid \<noteq> 0 \<and> unat (slot_index uid) = i"
    then obtain uid r s where l: "DumpSlice uid pt r s \<in> set ?ls" "uid \<noteq> 0" "unat (slot_index uid) = i"
      by blast
    then obtain q where q: "q \<in> set os" "uid = obj_id ?m q" "pt = of_nat q"
      using slice_lines_mem(2) dump_slots_only_slots by fastforce
    have "heap_slot H (slot_index uid) = pt"
      using slot_of_slice [OF wf os q(1)] q(2,3) l(2) by simp
    moreover have "pt \<noteq> 0"
      using slices_bounds(1,4) [OF wf os q(1)] q(3) of_nat_u32_inj [of q 0] by auto
    ultimately show "DumpSlot i pt \<in> set ?ls"
      using slot_index_unat [of uid] l(3) dump_slots_mem by auto
  qed
  with D show ?thesis by blast
qed

end
