(* ===== verification/Bpa_Driver.thy ===== *)
theory Bpa_Driver
  imports Bpa_Bytes Bpa_Init Bpa_Alloc Bpa_Dump Bpa_Compact
begin

text \<open>
  The test driver \<^verbatim>\<open>src/testbpa.c\<close>: its helpers \<^verbatim>\<open>set_id\<close> (a \<^verbatim>\<open>memset\<close> of a
  payload) and \<^verbatim>\<open>dump_id\<close> (a byte print of a payload), and \<^verbatim>\<open>main\<close> as a sequence of
  steps over the arena and the list of what it prints (\<open>out\<close>). A failed
  \<^verbatim>\<open>assert\<close> of the driver, one of the library's assertions, and a write through the
  \<^verbatim>\<open>NULL\<close> that \<^verbatim>\<open>bpa_get_ptr\<close> returns for a dead handle are \<open>Inl\<close> values of
  \<open>drv_error\<close>; a \<open>None\<close> is a run that does not return. The buffer \<^verbatim>\<open>malloc\<close> returns
  is the parameter \<open>buf\<close>: its memory is arbitrary, and \<^verbatim>\<open>bpa_init\<close> keeps its slot
  table.
\<close>

section \<open>Output and errors\<close>

datatype out =
    OutDump "dump_line list"   \<comment> \<open>a \<^verbatim>\<open>bpa_dump(H)\<close>\<close>
  | OutId u32                  \<comment> \<open>\<^verbatim>\<open>printf("id = %x\n", uid)\<close>\<close>
  | OutNotExist                \<comment> \<open>\<^verbatim>\<open>printf("not exist\n")\<close>\<close>
  | OutBytes "u8 list"         \<comment> \<open>the \<^verbatim>\<open>s\<close> bytes printed by \<^verbatim>\<open>dump_id\<close>\<close>

datatype drv_error =
    AssertFailed nat           \<comment> \<open>an \<^verbatim>\<open>assert\<close> of \<^verbatim>\<open>main\<close>, by its line in \<^verbatim>\<open>testbpa.c\<close>\<close>
  | NullWrite                  \<comment> \<open>\<^verbatim>\<open>memset\<close> through the \<^verbatim>\<open>NULL\<close> of a dead handle\<close>
  | OpFailed bpa_error         \<comment> \<open>an assertion inside the library\<close>

section \<open>The helpers\<close>

definition set_id :: "bpa_heap \<Rightarrow> u32 \<Rightarrow> int \<Rightarrow> nat \<Rightarrow> drv_error + bpa_heap" where
  "set_id H uid v s =
     (case bpa_get_ptr H uid of
        None \<Rightarrow> Inl NullWrite
      | Some buf \<Rightarrow> Inr (H\<lparr>heap_mem := memset (heap_mem H) buf (word_of_int v) s\<rparr>))"

definition dump_id :: "bpa_heap \<Rightarrow> u32 \<Rightarrow> nat \<Rightarrow> out list" where
  "dump_id H uid s =
     OutId uid #
     (case bpa_get_ptr H uid of
        None \<Rightarrow> [OutNotExist]
      | Some buf \<Rightarrow> [OutBytes (map (\<lambda>i. mem_byte (heap_mem H) (buf + i)) [0..<s])])"

section \<open>Steps of main\<close>

text \<open>
  A step maps the arena and the output so far to an error, the next arena and output,
  or \<open>None\<close> when it does not return. \<open>run_steps\<close> runs them in order and stops at the
  first error.
\<close>

type_synonym drv_state = "bpa_heap \<times> out list"
type_synonym drv_step = "drv_state \<Rightarrow> (drv_error + drv_state) option"

fun run_steps :: "drv_step list \<Rightarrow> drv_state \<Rightarrow> (drv_error + drv_state) option" where
  "run_steps [] st = Some (Inr st)"
| "run_steps (f # fs) st =
     Option.bind (f st) (\<lambda>r. case r of Inl e \<Rightarrow> Some (Inl e) | Inr st' \<Rightarrow> run_steps fs st')"

definition do_dump :: drv_step where
  "do_dump st = map_option (\<lambda>ls. Inr (fst st, snd st @ [OutDump ls])) (bpa_dump (fst st))"

text \<open>
  \<^verbatim>\<open>assert(bpa_get_id(H, bpa_get_ptr(H, uid)) == uid)\<close>. Pointers are byte offsets from
  \<^verbatim>\<open>H\<close>; the \<^verbatim>\<open>NULL\<close> of a dead handle is below \<^verbatim>\<open>H\<close> and fails \<^verbatim>\<open>bpa_get_id\<close>'s
  range assertion exactly as the offset \<open>0\<close> does.
\<close>

definition check_id :: "nat \<Rightarrow> u32 \<Rightarrow> drv_step" where
  "check_id ln uid st =
     (let H = fst st; p = (case bpa_get_ptr H uid of None \<Rightarrow> 0 | Some p \<Rightarrow> p) in
      Some (case bpa_get_id H p of
              Inl e \<Rightarrow> Inl (OpFailed e)
            | Inr v \<Rightarrow> if v = uid then Inr st else Inl (AssertFailed ln)))"

definition do_set_id :: "u32 \<Rightarrow> int \<Rightarrow> nat \<Rightarrow> drv_step" where
  "do_set_id uid v s st = Some (map_sum id (\<lambda>H. (H, snd st)) (set_id (fst st) uid v s))"

definition do_dump_id :: "u32 \<Rightarrow> nat \<Rightarrow> drv_step" where
  "do_dump_id uid s st = Some (Inr (fst st, snd st @ dump_id (fst st) uid s))"

definition do_grab :: "u32 \<Rightarrow> drv_step" where
  "do_grab uid st = Some (Inr (fst (bpa_grab (fst st) uid), snd st))"

definition do_release :: "u32 \<Rightarrow> drv_step" where
  "do_release uid st = Some (map_sum OpFailed (\<lambda>H. (H, snd st)) (bpa_release (fst st) uid))"

definition do_collect :: "int \<Rightarrow> drv_step" where
  "do_collect step st = map_option (map_sum OpFailed (\<lambda>H. (H, snd st))) (bpa_collect (fst st) step)"

section \<open>main\<close>

definition testbpa_main :: "bpa_heap \<Rightarrow> (drv_error + out list) option" where
  "testbpa_main buf =
     (case bpa_init buf (1024 * 1024) of
        None \<Rightarrow> Some (Inl (AssertFailed 33))
      | Some H \<Rightarrow>
          Option.bind (bpa_dump H) (\<lambda>d0.
            let (H, id1) = bpa_create H 10000;
                (H, id2) = bpa_create H 20000;
                (H, id3) = bpa_create H 30000;
                (H, _) = bpa_create H 4000
            in map_option (map_sum id snd)
                 (run_steps
                   [check_id 39 id1, check_id 40 id2, check_id 41 id3,
                    do_set_id id1 1 10000, do_set_id id2 2 20000, do_set_id id3 3 30000,
                    do_dump_id id1 100, do_dump_id id2 100, do_dump_id id3 100,
                    do_dump_id (id1 + 0x10000) 100,
                    do_dump,
                    do_grab id1, do_grab id3,
                    do_collect 1, do_dump,
                    do_dump_id id1 100, do_dump_id id2 100, do_dump_id id3 100,
                    do_release id1, do_collect 0, do_dump,
                    do_release id3, do_collect 0, do_dump]
                   (H, [OutDump d0]))))"

section \<open>The run of main on a fresh buffer\<close>

text \<open>
  The arenas \<^verbatim>\<open>main\<close> goes through when \<^verbatim>\<open>malloc\<close> returns a buffer whose slot
  array is zero (any other contents): after \<^verbatim>\<open>bpa_init\<close>, after the four creates,
  after the three \<^verbatim>\<open>set_id\<close>, after the two pins, after \<^verbatim>\<open>bpa_collect(H, 1)\<close> (one
  increment, paused with a placeholder over the reclaimed gap), after the first release,
  at the end of the resumed cycle, after the full collection, after the second release,
  and at the end.
\<close>

definition st_init :: "bpa_heap \<Rightarrow> bpa_heap" where
  "st_init buf = buf\<lparr>heap_sz := 131072, heap_offset := 32770, heap_collect := 0, heap_cid := 0\<rparr>"

definition mem_created :: "bpa_heap \<Rightarrow> memory" where
  "mem_created buf = (heap_mem buf)(262160 := 0, 262164 := 1252, 272172 := 1,
     272176 := 0, 272180 := 2502, 292188 := 2, 292192 := 0, 292196 := 3752, 322204 := 3,
     322208 := 0, 322212 := 502, 326220 := 4)"

definition st_created :: "bpa_heap \<Rightarrow> bpa_heap" where
  "st_created buf = st_init buf\<lparr>heap_cid := 4,
     heap_slot := (\<lambda>_. 0)(1 := 32770, 2 := 34022, 3 := 36524, 4 := 40276),
     heap_offset := 40778, heap_mem := mem_created buf\<rparr>"

definition mem_filled :: "bpa_heap \<Rightarrow> memory" where
  "mem_filled buf = memset (memset (memset (mem_created buf) 262168 1 10000) 272184 2 20000) 292200 3 30000"

definition st_filled :: "bpa_heap \<Rightarrow> bpa_heap" where
  "st_filled buf = st_created buf\<lparr>heap_mem := mem_filled buf\<rparr>"

definition st_pinned :: "bpa_heap \<Rightarrow> bpa_heap" where
  "st_pinned buf = st_filled buf\<lparr>heap_mem := (mem_filled buf)(262160 := 1, 292192 := 1)\<rparr>"

definition mem_step1 :: "bpa_heap \<Rightarrow> memory" where
  "mem_step1 buf =
     (memmove ((mem_filled buf)(262160 := 1, 292192 := 1)) 272176 292192 30016)
       (302192 := 0, 302196 := 2502, 322204 := 0)"

definition st_step1 :: "bpa_heap \<Rightarrow> bpa_heap" where
  "st_step1 buf = st_filled buf\<lparr>heap_collect := 37774,
     heap_slot := (\<lambda>_. 0)(1 := 32770, 2 := 34022, 3 := 36524, 4 := 40276, 2 := 0, 3 := 34022),
     heap_mem := mem_step1 buf\<rparr>"

definition st_rel1 :: "bpa_heap \<Rightarrow> bpa_heap" where
  "st_rel1 buf = st_step1 buf\<lparr>heap_mem := (mem_step1 buf)(262160 := 0)\<rparr>"

definition st_idle1 :: "bpa_heap \<Rightarrow> bpa_heap" where
  "st_idle1 buf = st_rel1 buf\<lparr>heap_offset := 37774, heap_collect := 0,
     heap_slot := (\<lambda>_. 0)(1 := 32770, 2 := 34022, 3 := 36524, 4 := 40276, 2 := 0, 3 := 34022, 4 := 0)\<rparr>"

definition st_full1 :: "bpa_heap \<Rightarrow> bpa_heap" where
  "st_full1 buf = st_rel1 buf\<lparr>heap_offset := 36522, heap_collect := 0,
     heap_slot := (\<lambda>_. 0)(1 := 32770, 2 := 34022, 3 := 36524, 4 := 40276, 2 := 0, 3 := 34022, 4 := 0,
                     1 := 0, 3 := 32770),
     heap_mem := memmove ((mem_step1 buf)(262160 := 0)) 262160 272176 30016\<rparr>"

definition st_rel3 :: "bpa_heap \<Rightarrow> bpa_heap" where
  "st_rel3 buf = st_full1 buf\<lparr>heap_mem := (heap_mem (st_full1 buf))(262160 := 0)\<rparr>"

definition st_final :: "bpa_heap \<Rightarrow> bpa_heap" where
  "st_final buf = st_rel3 buf\<lparr>heap_offset := 32770, heap_collect := 0,
     heap_slot := (heap_slot (st_full1 buf))(3 := 0)\<rparr>"

section \<open>Writing and printing a payload\<close>

lemma set_id_Inr:
  "set_id H uid v s = Inr H' \<Longrightarrow>
   \<exists>p. bpa_get_ptr H uid = Some p \<and> H' = H\<lparr>heap_mem := memset (heap_mem H) p (word_of_int v) s\<rparr>"
  by (auto simp: set_id_def split: option.splits)

text \<open>A \<^verbatim>\<open>memset\<close> inside the payload of a live slice keeps its handle resolving.\<close>

lemma get_ptr_memset:
  assumes wf: "heap_wf H" and get: "bpa_get_ptr H uid = Some p"
    and fit: "s + 12 \<le> 8 * obj_sz (heap_mem H) ((p - 8) div 8)"
  shows "bpa_get_ptr (H\<lparr>heap_mem := memset (heap_mem H) p v s\<rparr>) uid = Some p"
proof -
  let ?m = "heap_mem H" and ?m' = "memset (heap_mem H) p v s"
  let ?off = "heap_slot H (slot_index uid)"
  obtain os where os: "slices H = Some os" using wf by (auto elim: heap_wfD)
  obtain q where q: "q \<in> set os" "p = 8 * q + 8" "obj_id ?m q = uid"
    by (rule bpa_get_ptr_SomeE [OF wf os get])
  have off: "?off \<noteq> 0" "HEAP_SLICE ?off = 8 * q" "slice_id ?m (HEAP_SLICE ?off) = uid"
    using get q(2) by (auto simp: bpa_get_ptr_def Let_def split: if_splits)
  have b: "2 \<le> obj_sz ?m q" "obj_sz ?m q < 2 ^ 29"
    using slices_bounds [OF wf os q(1)] by simp_all
  have pq: "(p - 8) div 8 = q" using q(2) by simp
  have sz: "?m' (8 * q + 4) = ?m (8 * q + 4)"
    using q(2) by (intro memset_outside) simp
  then have "obj_sz ?m' q = obj_sz ?m q" by (simp add: slice_sz_def)
  moreover have "?m' (8 * (q + obj_sz ?m q) - 4) = ?m (8 * (q + obj_sz ?m q) - 4)"
    using fit q(2) b(1) pq by (intro memset_outside) simp
  ultimately have "obj_id ?m' q = obj_id ?m q"
    using b(2) by (simp add: slice_id_def SLICE_ID_unit)
  then show ?thesis
    using off q(2,3) by (simp add: bpa_get_ptr_def Let_def)
qed


text \<open>
  C23 \<^verbatim>\<open>set_id\<close> then \<^verbatim>\<open>dump_id\<close> is a round trip: on a well-formed arena, after
  \<^verbatim>\<open>set_id(H, uid, v, s)\<close> with \<open>s\<close> within the payload of \<open>uid\<close>'s slice, the handle still
  resolves and \<^verbatim>\<open>dump_id\<close> prints \<open>k \<le> s\<close> bytes equal to \<open>v\<close> (as an \<^verbatim>\<open>unsigned char\<close>).
\<close>

theorem set_id_dump_id:
  assumes wf: "heap_wf H" and get: "bpa_get_ptr H uid = Some p"
    and fit: "s + 12 \<le> 8 * obj_sz (heap_mem H) ((p - 8) div 8)"
    and set: "set_id H uid v s = Inr H'" and k: "k \<le> s"
  shows "dump_id H' uid k = [OutId uid, OutBytes (replicate k (word_of_int v))]"
proof -
  have H': "H' = H\<lparr>heap_mem := memset (heap_mem H) p (word_of_int v) s\<rparr>"
    using set_id_Inr [OF set] get by auto
  have "bpa_get_ptr H' uid = Some p"
    unfolding H' by (rule get_ptr_memset [OF wf get fit])
  then show ?thesis
    using memset_bytes [OF k, of "heap_mem H" p "word_of_int v"] by (simp add: dump_id_def H')
qed

lemmas drv_eval = bpa_create_def alloc_slot_def slice_units_def slot_index_def
  MAX_SLOT_def HEAP_SLICE_def SLICE_ID_def slice_sz_def slice_id_def slice_ref_def
  bpa_get_ptr_def bpa_grab_def bpa_release_def bpa_get_id_def Let_def

lemma init_st: "bpa_init buf (1024 * 1024) = Some (st_init buf)"
  by (simp add: bpa_init_def st_init_def)

lemma creates:
  assumes z: "heap_slot buf = (\<lambda>_. 0)"
  shows "bpa_create (st_init buf) 10000 =
           (st_init buf\<lparr>heap_cid := 1, heap_slot := (\<lambda>_. 0)(1 := 32770), heap_offset := 34022,
              heap_mem := (heap_mem buf)(262160 := 0, 262164 := 1252, 272172 := 1)\<rparr>, 1)"
    "bpa_create (st_init buf\<lparr>heap_cid := 1, heap_slot := (\<lambda>_. 0)(1 := 32770), heap_offset := 34022,
              heap_mem := (heap_mem buf)(262160 := 0, 262164 := 1252, 272172 := 1)\<rparr>) 20000 =
           (st_init buf\<lparr>heap_cid := 2, heap_slot := (\<lambda>_. 0)(1 := 32770, 2 := 34022), heap_offset := 36524,
              heap_mem := (heap_mem buf)(262160 := 0, 262164 := 1252, 272172 := 1,
                 272176 := 0, 272180 := 2502, 292188 := 2)\<rparr>, 2)"
    "bpa_create (st_init buf\<lparr>heap_cid := 2, heap_slot := (\<lambda>_. 0)(1 := 32770, 2 := 34022), heap_offset := 36524,
              heap_mem := (heap_mem buf)(262160 := 0, 262164 := 1252, 272172 := 1,
                 272176 := 0, 272180 := 2502, 292188 := 2)\<rparr>) 30000 =
           (st_init buf\<lparr>heap_cid := 3, heap_slot := (\<lambda>_. 0)(1 := 32770, 2 := 34022, 3 := 36524),
              heap_offset := 40276,
              heap_mem := (heap_mem buf)(262160 := 0, 262164 := 1252, 272172 := 1,
                 272176 := 0, 272180 := 2502, 292188 := 2, 292192 := 0, 292196 := 3752, 322204 := 3)\<rparr>, 3)"
    "bpa_create (st_init buf\<lparr>heap_cid := 3, heap_slot := (\<lambda>_. 0)(1 := 32770, 2 := 34022, 3 := 36524),
              heap_offset := 40276,
              heap_mem := (heap_mem buf)(262160 := 0, 262164 := 1252, 272172 := 1,
                 272176 := 0, 272180 := 2502, 292188 := 2, 292192 := 0, 292196 := 3752, 322204 := 3)\<rparr>) 4000 =
           (st_created buf, 4)"
  using z by (simp_all add: drv_eval st_init_def st_created_def mem_created_def)

lemma created_fields [simp]:
  "heap_offset (st_created buf) = 40778" "heap_sz (st_created buf) = 131072"
  "heap_collect (st_created buf) = 0"
  "heap_slot (st_created buf) = (\<lambda>_. 0)(1 := 32770, 2 := 34022, 3 := 36524, 4 := 40276)"
  "heap_mem (st_created buf) = mem_created buf"
  by (simp_all add: st_created_def st_init_def)

lemma filled_fields [simp]:
  "heap_offset (st_filled buf) = 40778" "heap_sz (st_filled buf) = 131072"
  "heap_collect (st_filled buf) = 0"
  "heap_slot (st_filled buf) = (\<lambda>_. 0)(1 := 32770, 2 := 34022, 3 := 36524, 4 := 40276)"
  "heap_mem (st_filled buf) = mem_filled buf"
  by (simp_all add: st_filled_def)

lemma checks:
  "check_id 39 1 (st_created buf, os) = Some (Inr (st_created buf, os))"
  "check_id 40 2 (st_created buf, os) = Some (Inr (st_created buf, os))"
  "check_id 41 3 (st_created buf, os) = Some (Inr (st_created buf, os))"
  by (simp_all add: check_id_def drv_eval mem_created_def)

lemma sets:
  "do_set_id 1 1 10000 (st_created buf, os) =
     Some (Inr (st_created buf\<lparr>heap_mem := memset (mem_created buf) 262168 1 10000\<rparr>, os))"
  "do_set_id 2 2 20000 (st_created buf\<lparr>heap_mem := memset (mem_created buf) 262168 1 10000\<rparr>, os) =
     Some (Inr (st_created buf\<lparr>heap_mem := memset (memset (mem_created buf) 262168 1 10000) 272184 2 20000\<rparr>, os))"
  "do_set_id 3 3 30000
     (st_created buf\<lparr>heap_mem := memset (memset (mem_created buf) 262168 1 10000) 272184 2 20000\<rparr>, os) =
     Some (Inr (st_filled buf, os))"
  by (simp_all add: do_set_id_def set_id_def drv_eval mem_created_def mem_filled_def st_filled_def mem_frame)

lemma filled_get:
  "bpa_get_ptr (st_filled buf) 1 = Some 262168" "bpa_get_ptr (st_filled buf) 2 = Some 272184"
  "bpa_get_ptr (st_filled buf) 3 = Some 292200" "bpa_get_ptr (st_filled buf) 65537 = None"
  by (simp_all add: drv_eval mem_filled_def mem_created_def mem_frame)

lemma filled_bytes:
  "map (\<lambda>i. mem_byte (mem_filled buf) (262168 + i)) [0..<100] = replicate 100 1"
  "map (\<lambda>i. mem_byte (mem_filled buf) (272184 + i)) [0..<100] = replicate 100 2"
  "map (\<lambda>i. mem_byte (mem_filled buf) (292200 + i)) [0..<100] = replicate 100 3"
  by (rule bytes_const; simp add: mem_filled_def mem_byte_memset)+

lemma filled_slots:
  "dump_slots (st_filled buf) = [DumpSlot 1 32770, DumpSlot 2 34022, DumpSlot 3 36524, DumpSlot 4 40276]"
proof -
  have "dump_slots (st_filled buf) = map (\<lambda>i. DumpSlot i (heap_slot (st_filled buf) (of_nat i))) [1, 2, 3, 4]"
    by (rule dump_slots_support) (auto simp: MAX_SLOT_def u16_of_nat_eq)
  then show ?thesis by simp
qed

lemma filled_dump:
  "bpa_dump (st_filled buf) = Some [DumpHeader 1024 326224,
     DumpSlot 1 32770, DumpSlot 2 34022, DumpSlot 3 36524, DumpSlot 4 40276,
     DumpSlice 1 32770 0 10016, DumpSlice 2 34022 0 20016, DumpSlice 3 36524 0 30016,
     DumpSlice 4 40276 0 4016]"
  by (simp add: bpa_dump_def filled_slots dump_walk.simps drv_eval mem_filled_def mem_created_def mem_frame)

lemma grabs:
  "do_grab 1 (st_filled buf, os) = Some (Inr (st_filled buf\<lparr>heap_mem := (mem_filled buf)(262160 := 1)\<rparr>, os))"
  "do_grab 3 (st_filled buf\<lparr>heap_mem := (mem_filled buf)(262160 := 1)\<rparr>, os) = Some (Inr (st_pinned buf, os))"
  by (simp_all add: do_grab_def drv_eval mem_filled_def mem_created_def mem_frame st_pinned_def st_filled_def)

lemma collect1:
  "bpa_collect (st_pinned buf) 1 = Some (Inr (st_step1 buf))"
  by (simp add: bpa_collect_def collect_def collect_loop.simps st_pinned_def st_step1_def mem_step1_def
       st_filled_def st_created_def st_init_def drv_eval mem_filled_def mem_created_def mem_frame word_sless_alt)

lemma step1_fields [simp]:
  "heap_offset (st_step1 buf) = 40778" "heap_sz (st_step1 buf) = 131072"
  "heap_collect (st_step1 buf) = 37774"
  "heap_slot (st_step1 buf) = (\<lambda>_. 0)(1 := 32770, 2 := 34022, 3 := 36524, 4 := 40276, 2 := 0, 3 := 34022)"
  "heap_mem (st_step1 buf) = mem_step1 buf"
  by (simp_all add: st_step1_def)

lemmas step1_mem = mem_step1_def mem_filled_def mem_created_def

lemma step1_get:
  "bpa_get_ptr (st_step1 buf) 1 = Some 262168" "bpa_get_ptr (st_step1 buf) 2 = None"
  "bpa_get_ptr (st_step1 buf) 3 = Some 272184"
  by (simp_all add: drv_eval step1_mem mem_frame)

lemma step1_bytes:
  "map (\<lambda>i. mem_byte (mem_step1 buf) (262168 + i)) [0..<100] = replicate 100 1"
  "map (\<lambda>i. mem_byte (mem_step1 buf) (272184 + i)) [0..<100] = replicate 100 3"
  by (rule bytes_const; simp add: mem_step1_def mem_filled_def mem_byte_memset mem_byte_upd mem_byte_memmove)+

lemma step1_slots:
  "dump_slots (st_step1 buf) = [DumpSlot 1 32770, DumpSlot 3 34022, DumpSlot 4 40276]"
proof -
  have "dump_slots (st_step1 buf) = map (\<lambda>i. DumpSlot i (heap_slot (st_step1 buf) (of_nat i))) [1, 3, 4]"
    by (rule dump_slots_support) (auto simp: MAX_SLOT_def u16_of_nat_eq)
  then show ?thesis by simp
qed

lemma step1_dump:
  "bpa_dump (st_step1 buf) = Some [DumpHeader 1024 326224,
     DumpSlot 1 32770, DumpSlot 3 34022, DumpSlot 4 40276,
     DumpSlice 1 32770 1 10016, DumpSlice 3 34022 1 30016, DumpSlice 0 37774 0 20016,
     DumpSlice 4 40276 0 4016]"
  by (simp add: bpa_dump_def step1_slots dump_walk.simps drv_eval step1_mem mem_frame)

lemma rel1:
  "do_release 1 (st_step1 buf, os) = Some (Inr (st_rel1 buf, os))"
  by (simp add: do_release_def drv_eval step1_mem mem_frame st_rel1_def word_sless_alt)

lemma rel1_fields [simp]:
  "heap_offset (st_rel1 buf) = 40778" "heap_collect (st_rel1 buf) = 37774"
  "heap_slot (st_rel1 buf) = (\<lambda>_. 0)(1 := 32770, 2 := 34022, 3 := 36524, 4 := 40276, 2 := 0, 3 := 34022)"
  "heap_mem (st_rel1 buf) = (mem_step1 buf)(262160 := 0)"
  by (simp_all add: st_rel1_def)

lemma finish1: "collect_until_idle (st_rel1 buf) = Some (Inr (st_idle1 buf))"
  apply (subst collect_until_idle.simps)
  apply (simp add: collect_def collect_loop.simps drv_eval step1_mem mem_frame word_sless_alt)
  apply (simp add: st_idle1_def st_rel1_def st_step1_def)
  done

lemma idle1_fields [simp]:
  "heap_offset (st_idle1 buf) = 37774" "heap_collect (st_idle1 buf) = 0"
  "heap_slot (st_idle1 buf) = (\<lambda>_. 0)(1 := 32770, 2 := 34022, 3 := 36524, 4 := 40276, 2 := 0, 3 := 34022, 4 := 0)"
  "heap_mem (st_idle1 buf) = (mem_step1 buf)(262160 := 0)"
  by (simp_all add: st_idle1_def)

lemma full1: "collect_until_idle (st_idle1 buf\<lparr>heap_collect := 32770\<rparr>) = Some (Inr (st_full1 buf))"
  apply (subst collect_until_idle.simps)
  apply (simp add: collect_def collect_loop.simps drv_eval step1_mem mem_frame word_sless_alt)
  apply (simp add: st_full1_def st_idle1_def st_rel1_def st_step1_def step1_mem)
  done

lemma collect0_1: "bpa_collect (st_rel1 buf) 0 = Some (Inr (st_full1 buf))"
  using finish1 full1 by (simp add: bpa_collect_def)

lemma full1_fields [simp]:
  "heap_offset (st_full1 buf) = 36522" "heap_collect (st_full1 buf) = 0" "heap_sz (st_full1 buf) = 131072"
  "heap_slot (st_full1 buf) = (\<lambda>_. 0)(2 := 0, 4 := 0, 1 := 0, 3 := 32770)"
  by (simp_all add: st_full1_def st_rel1_def st_step1_def st_filled_def st_created_def st_init_def)

lemmas full1_mem = st_full1_def st_rel1_def st_step1_def mem_step1_def mem_filled_def mem_created_def

lemma full1_slots: "dump_slots (st_full1 buf) = [DumpSlot 3 32770]"
proof -
  have "dump_slots (st_full1 buf) = map (\<lambda>i. DumpSlot i (heap_slot (st_full1 buf) (of_nat i))) [3]"
    by (rule dump_slots_support) (auto simp: MAX_SLOT_def u16_of_nat_eq)
  then show ?thesis by simp
qed

lemma full1_dump:
  "bpa_dump (st_full1 buf) = Some [DumpHeader 1024 292176, DumpSlot 3 32770, DumpSlice 3 32770 1 30016]"
  unfolding bpa_dump_def full1_slots by (simp add: dump_walk.simps drv_eval full1_mem mem_frame)

lemma rel3:
  "do_release 3 (st_full1 buf, os) = Some (Inr (st_rel3 buf, os))"
  by (simp add: do_release_def drv_eval full1_mem mem_frame st_rel3_def word_sless_alt)

lemma collect0_3: "bpa_collect (st_rel3 buf) 0 = Some (Inr (st_final buf))"
  apply (simp add: bpa_collect_def st_rel3_def)
  apply (subst collect_until_idle.simps)
  apply (simp add: collect_def collect_loop.simps drv_eval full1_mem mem_frame word_sless_alt)
  apply (simp add: st_final_def st_rel3_def st_full1_def st_rel1_def st_step1_def step1_mem)
  done

lemma final_dump: "bpa_dump (st_final buf) = Some [DumpHeader 1024 262160]"
proof -
  have "dump_slots (st_final buf) = map (\<lambda>i. DumpSlot i (heap_slot (st_final buf) (of_nat i))) []"
    by (rule dump_slots_support) (auto simp: MAX_SLOT_def u16_of_nat_eq st_final_def st_full1_def)
  then show ?thesis
    by (simp add: bpa_dump_def dump_walk.simps st_final_def st_rel3_def st_full1_def st_rel1_def
          st_step1_def st_filled_def st_created_def st_init_def)
qed

lemma init_dump:
  assumes z: "heap_slot buf = (\<lambda>_. 0)"
  shows "bpa_dump (st_init buf) = Some [DumpHeader 1024 262160]"
proof -
  have "dump_slots (st_init buf) = map (\<lambda>i. DumpSlot i (heap_slot (st_init buf) (of_nat i))) []"
    by (rule dump_slots_support) (simp_all add: st_init_def z)
  then show ?thesis
    by (simp add: bpa_dump_def dump_walk.simps st_init_def)
qed

text \<open>
  C11 On a buffer whose handle table is zero, whatever else it holds, \<^verbatim>\<open>main\<close> of
  \<^verbatim>\<open>testbpa.c\<close> passes all its assertions, returns, and prints exactly this: the empty
  arena; the payload bytes of the first three slices and "not exist" for
  \<open>id1 + 0x10000\<close>; the four slices; after one increment of \<^verbatim>\<open>bpa_collect(H, 1)\<close> the
  pinned slices 1 and 3 compacted, a placeholder over the reclaimed gap and slice 4 not
  yet visited; handle 2 gone and the payloads of 1 and 3 intact; after releasing 1 and a
  full collection only slice 3; and after releasing 3 and a full collection the empty
  arena.
\<close>

theorem testbpa_main_trace:
  assumes z: "heap_slot buf = (\<lambda>_. 0)"
  shows "testbpa_main buf = Some (Inr
    [OutDump [DumpHeader 1024 262160],
     OutId 1, OutBytes (replicate 100 1), OutId 2, OutBytes (replicate 100 2),
     OutId 3, OutBytes (replicate 100 3), OutId 65537, OutNotExist,
     OutDump [DumpHeader 1024 326224,
       DumpSlot 1 32770, DumpSlot 2 34022, DumpSlot 3 36524, DumpSlot 4 40276,
       DumpSlice 1 32770 0 10016, DumpSlice 2 34022 0 20016, DumpSlice 3 36524 0 30016,
       DumpSlice 4 40276 0 4016],
     OutDump [DumpHeader 1024 326224,
       DumpSlot 1 32770, DumpSlot 3 34022, DumpSlot 4 40276,
       DumpSlice 1 32770 1 10016, DumpSlice 3 34022 1 30016, DumpSlice 0 37774 0 20016,
       DumpSlice 4 40276 0 4016],
     OutId 1, OutBytes (replicate 100 1), OutId 2, OutNotExist,
     OutId 3, OutBytes (replicate 100 3),
     OutDump [DumpHeader 1024 292176, DumpSlot 3 32770, DumpSlice 3 32770 1 30016],
     OutDump [DumpHeader 1024 262160]])"
  unfolding testbpa_main_def init_st
  by (simp add: init_dump [OF z] creates [OF z] checks sets grabs rel1 rel3 do_dump_def do_dump_id_def
        dump_id_def do_collect_def filled_get filled_bytes filled_dump collect1 step1_dump step1_get
        step1_bytes collect0_1 full1_dump collect0_3 final_dump)

end
