(* ===== verification/Spec2Isabelle.thy ===== *)
theory Spec2Isabelle
  imports Bpa_Interleave Bpa_Driver
begin

text \<open>
  \<^bold>\<open>A verified model of bpa, the bump-pointer arena allocator with incremental
  compaction (\<^verbatim>\<open>src/bpa.c\<close>, \<^verbatim>\<open>src/bpa.h\<close>, driver \<^verbatim>\<open>src/testbpa.c\<close>).\<close>

  \<^bold>\<open>The program.\<close> One buffer holds a header \<^verbatim>\<open>struct bpa_heap\<close> (capacity
  \<^verbatim>\<open>sz\<close>, frontier \<^verbatim>\<open>offset\<close>, sweep cursor \<^verbatim>\<open>collect\<close>, handle counter \<^verbatim>\<open>cid\<close>, the
  65536-entry handle table \<^verbatim>\<open>slot\<close>) followed by slices: each is an 8-byte
  \<^verbatim>\<open>struct slice {int ref; pointer_t sz;}\<close>, the payload, and the slice's id in its last
  4 bytes. All offsets are 32-bit counts of 8-byte units. \<^verbatim>\<open>bpa_create\<close> appends a slice
  at the frontier and issues a handle by probing the table (\<^verbatim>\<open>alloc_slot\<close>);
  \<^verbatim>\<open>bpa_grab\<close>/\<^verbatim>\<open>bpa_release\<close> pin and unpin through the table; \<^verbatim>\<open>bpa_get_ptr\<close> and
  \<^verbatim>\<open>bpa_get_id\<close> translate handles to payload pointers and back; \<^verbatim>\<open>bpa_collect\<close> runs
  increments of the sweep \<^verbatim>\<open>collect\<close>, which drops unpinned slices and slides pinned
  ones down, rewriting the table.

  \<^bold>\<open>The theories.\<close>
  \<^item> \<open>Prelude\<close>: machine types (\<open>u16\<close>, \<open>u32\<close>, \<open>u64\<close>), the byte-addressed
    memory (\<open>memory\<close>, a 4-byte cell per 4-aligned byte offset), \<^verbatim>\<open>memmove\<close>, and the
    no-wrap lemmas for 32-bit offset arithmetic.
  \<^item> \<open>Bpa_Heap\<close>: the constants of \<^verbatim>\<open>bpa.c\<close>, the header as the record
    \<open>bpa_heap\<close> (fields \<open>heap_sz\<close>, \<open>heap_offset\<close>, \<open>heap_collect\<close>, \<open>heap_cid\<close>,
    \<open>heap_slot\<close>, and \<open>heap_mem\<close> for the rest of the buffer), the macros
    \<^verbatim>\<open>HEAP_SLICE\<close> and \<^verbatim>\<open>SLICE_ID\<close> with the 32-bit product they compute, the
    tiling walk \<open>chain\<close> and the invariant \<open>heap_wf\<close>: the slices tile
    \<open>[HEAP_HEADER_SIZE, offset)\<close>, each at least two units; the cursor is idle or on
    a slice boundary; a used slot points at a slice whose id maps back to it and every
    slice with a nonzero id is so pointed at; placeholders (id \<open>0\<close>) are unpinned;
    and the capacity is below \<open>2 ^ 29\<close> units (4 GiB), the range in which
    \<^verbatim>\<open>off * ALIGN_SIZE\<close> does not wrap. Frame lemmas: the walk reads only size
    cells (byte offsets \<open>4\<close> mod \<open>8\<close>), so stores to reference counts or above the
    frontier keep it.
  \<^item> \<open>Bpa_Init\<close>: \<^verbatim>\<open>bpa_init\<close> as \<open>bpa_init\<close>; it establishes \<open>heap_wf\<close> when the
    buffer's slot array is zero and the buffer is below 4 GiB.
  \<^item> \<open>Bpa_Alloc\<close>: \<^verbatim>\<open>alloc_slot\<close> (\<open>alloc_slot_loop\<close>, \<open>alloc_slot\<close>), the
    reserved-size expression (\<open>slice_units\<close>) and \<^verbatim>\<open>bpa_create\<close>
    (\<open>bpa_create\<close>); a successful create appends exactly one slice and keeps the
    invariant; it fails without change when the request does not fit. The reserved
    size is exact below 4 GiB and otherwise taken modulo \<open>2 ^ 32\<close> units, so a request
    \<open>2 ^ 35\<close> bytes larger behaves as the small one (\<open>bpa_create_ignores_high_bits\<close>).
  \<^item> \<open>Bpa_Access\<close>: \<^verbatim>\<open>bpa_grab\<close>, \<^verbatim>\<open>bpa_release\<close>, \<^verbatim>\<open>bpa_get_ptr\<close>,
    \<^verbatim>\<open>bpa_get_id\<close>; the table lookup refines a search of the slices by id
    (\<open>find_slice\<close>); pin and unpin keep the invariant and undo each other;
    \<open>bpa_get_id\<close> inverts \<open>bpa_get_ptr\<close>; a count pinned \<open>INT_MAX\<close> times wraps
    negative on the next grab and can no longer be released.
  \<^item> \<open>Bpa_View\<close>: the client-visible content of an arena, each slice as its
    reference count, id and payload (\<open>obj_view\<close>, \<open>heap_view\<close>), and the pinned
    part of it (\<open>live_view\<close>); frame and shift lemmas say which bytes a view reads.
  \<^item> \<open>Bpa_Collect\<close>: the compactor. \<open>collect_loop\<close> is the \<^verbatim>\<open>for (;;)\<close> loop of
    \<^verbatim>\<open>collect\<close> over \<^verbatim>\<open>p\<close>, \<^verbatim>\<open>dst\<close> and \<^verbatim>\<open>length\<close>, a
    \<^theory_text>\<open>partial_function (option)\<close> (\<open>None\<close> is "does not return", possible only on a
    corrupted arena); \<open>collect\<close> is one increment with its \<^verbatim>\<open>assert(p)\<close> as
    \<open>Inl CollectIdle\<close>; \<open>collect_until_idle\<close> is both the \<^verbatim>\<open>do ... while\<close> that
    finishes a cycle and the unbounded \<^verbatim>\<open>for\<close> of \<^verbatim>\<open>step == 0\<close>; \<open>collect_steps n\<close> is
    the bounded \<^verbatim>\<open>for\<close>; \<open>bpa_collect\<close> composes them as the source does.
  \<^item> \<open>Bpa_Sweep\<close>: the loop invariant \<open>sweep_inv\<close> (compacted prefix tiling
    \<open>[HEAP_HEADER_SIZE, dst)\<close>, unvisited slices tiling \<open>[p, offset)\<close>, a gap of
    zero or at least two units, table agreement), one lemma per branch of the loop
    body, and \<open>collect_loop_sweep\<close>: the loop returns and keeps \<open>heap_wf\<close> and the
    pinned content. No fuel is needed: the loop recurses on a strictly shorter list of
    unvisited slices, and an increment visits at least two slices before its quota
    (4096 bytes, checked before each slice, starting from 0 and then 8) can stop it,
    so each increment ends the cycle or shortens \<open>pending\<close>, the run from the cursor
    to the frontier; that measure bounds the driver loops. \<open>sweep_view\<close> is what the
    arena will hold when the current cycle completes (the compacted prefix, then the
    pinned part of the unvisited run); every increment keeps it.
  \<^item> \<open>Bpa_Compact\<close>: \<open>bpa_collect\<close> returns for every step count and keeps the
    invariant and the pinned content; a full collection refines filtering the views by
    \<open>pinned\<close>, so pinned handles keep their slice and payload and all other handles
    miss; from an idle arena any nonempty sequence of calls (\<open>collect_calls\<close>) that
    ends idle gives the same slices as one full collection; a started cycle ends
    within \<open>pending + 1\<close> calls of \<^verbatim>\<open>bpa_collect(H, 1)\<close>. The equivalence needs an idle
    start: a cycle resumed after releases keeps the slices it compacted before them.
  \<^item> \<open>Bpa_Interleave\<close>: a \<^verbatim>\<open>bpa_create\<close> during a paused cycle appends an
    unpinned slice to the cycle's unvisited run and keeps \<open>sweep_view\<close>, so the cycle,
    resumed, reclaims it (\<^verbatim>\<open>collect\<close> re-reads \<^verbatim>\<open>H->offset\<close> on every iteration).
  \<^item> \<open>Bpa_Dump\<close>: \<^verbatim>\<open>bpa_dump\<close> as the list of lines it prints (\<open>dump_line\<close>):
    the header, the used slots (\<open>dump_slots\<close>) and the slice walk \<open>dump_walk\<close>, a
    \<^theory_text>\<open>partial_function (option)\<close> over the 32-bit offset. On a well-formed arena the
    walk returns and prints exactly the tiling \<open>chain\<close>, and the slot and slice lines
    agree.
  \<^item> \<open>Bpa_Bytes\<close>: byte access to the cell memory for the client code: \<open>mem_byte\<close>
    reads byte \<open>a\<close> (little-endian within its 4-byte cell), \<open>memset\<close> fills a byte range;
    round-trip and frame lemmas for reads after \<open>memset\<close>, a store, and \<open>memmove\<close>.
  \<^item> \<open>Bpa_Driver\<close>: \<^verbatim>\<open>testbpa.c\<close>. \<^verbatim>\<open>set_id\<close> and \<^verbatim>\<open>dump_id\<close> as \<open>set_id\<close> and
    \<open>dump_id\<close>; \<^verbatim>\<open>main\<close> as \<open>testbpa_main\<close>, the initial dump and creates followed by
    \<open>run_steps\<close> over one step per statement (\<open>check_id\<close> for the assertions,
    \<open>do_set_id\<close>, \<open>do_dump_id\<close>, \<open>do_dump\<close>, \<open>do_grab\<close>, \<open>do_collect\<close>,
    \<open>do_release\<close>), with what it prints as a list of \<open>out\<close> and a failed assertion or a
    \<open>NULL\<close> write as \<open>drv_error\<close>. The buffer \<^verbatim>\<open>malloc\<close> returns is a parameter. The run
    is computed in closed form through the named intermediate arenas
    \<open>st_init\<close> \<open>\<dots>\<close> \<open>st_final\<close>: on any buffer whose slot array is zero, \<^verbatim>\<open>main\<close>
    passes its assertions and prints exactly the trace of \<open>testbpa_main_trace\<close>.
  \<^item> this theory: properties spanning components (a created handle is fresh and
    resolves to the new payload); the findings on \<^verbatim>\<open>bpa_create\<close>, stated for every
    arena: a request truncated to \<open>0\<close> units overwrites the id of the last slice, and a
    frontier past unit \<open>2 ^ 29\<close> makes a create store its slice header inside
    \<^verbatim>\<open>struct bpa_heap\<close>; the evaluation showing that \<^verbatim>\<open>bpa_init\<close> keeps a stale slot
    entry; and the witnesses of the properties with hypotheses, on the concrete arenas
    above.

  \<^bold>\<open>Modelling choices.\<close> \<^verbatim>\<open>pointer_t\<close> and \<^verbatim>\<open>id\<close> are \<open>32 word\<close>,
  \<^verbatim>\<open>size_t\<close> is \<open>64 word\<close>, the signed \<^verbatim>\<open>int ref\<close> and \<^verbatim>\<open>int length\<close> are \<open>32 word\<close>
  compared with the signed order \<open><s\<close>; byte addresses relative to the buffer are
  natural numbers (64-bit pointer arithmetic, which does not wrap in any buffer the
  process can own). Assertions (\<^verbatim>\<open>assert\<close>, enabled) are \<open>Inl\<close> values of
  \<open>bpa_error\<close>. The header lives in the record rather than in \<open>heap_mem\<close>: only an
  out-of-contract pointer given to \<^verbatim>\<open>bpa_get_id\<close>, or an offset that wraps (see the
  findings), would read or write it through memory.

  \<^bold>\<open>What is not modelled.\<close> \<^verbatim>\<open>printf\<close> formatting (the dump and the driver
  produce the values they print, as \<open>dump_line\<close> and \<open>out\<close>); \<^verbatim>\<open>bpa.h\<close>, which only
  declares the functions above; \<^verbatim>\<open>malloc\<close>, whose result is the parameter \<open>buf\<close>;
  the printing of a byte \<open>\<ge> 0x80\<close> through a signed \<^verbatim>\<open>char\<close> (the driver only prints
  bytes 1, 2 and 3).
\<close>

section \<open>Concrete arenas\<close>

text \<open>
  Fixtures for the witnesses and the findings: a zeroed buffer (what a fresh
  \<^verbatim>\<open>malloc\<close> of 1 MiB returns in the driver), the arena \<^verbatim>\<open>bpa_init\<close> makes of it, and
  that arena after the driver's first \<^verbatim>\<open>bpa_create(H, 10000)\<close>.
\<close>

definition buf0 :: bpa_heap where
  "buf0 = \<lparr>heap_sz = 0, heap_offset = 0, heap_collect = 0, heap_cid = 0,
           heap_slot = (\<lambda>_. 0), heap_mem = (\<lambda>_. 0)\<rparr>"

definition arena0 :: bpa_heap where
  "arena0 = buf0\<lparr>heap_sz := 131072, heap_offset := 32770\<rparr>"

definition arena1 :: bpa_heap where
  "arena1 = fst (bpa_create arena0 10000)"

text \<open>A buffer whose slot array still holds an entry from an earlier use.\<close>

definition buf_stale :: bpa_heap where
  "buf_stale = buf0\<lparr>heap_slot := (\<lambda>_. 0)(1 := 32770), heap_mem := (\<lambda>_. 0)(262156 := 1)\<rparr>"

text \<open>The arena after the driver's first create, with that slice pinned once.\<close>

definition arena1p :: bpa_heap where
  "arena1p = arena1\<lparr>heap_mem := (heap_mem arena1)(262160 := 1)\<rparr>"

text \<open>That arena with a cycle started and paused at its first slice, then a create of 8 bytes.\<close>

definition arena2 :: bpa_heap where
  "arena2 = fst (bpa_create (arena1p\<lparr>heap_collect := 32770\<rparr>) 8)"

text \<open>The arena after the driver's first create, with that slice pinned \<open>INT_MAX\<close> times.\<close>

definition arena1max :: bpa_heap where
  "arena1max = arena1\<lparr>heap_mem := (heap_mem arena1)(262160 := 0x7FFFFFFF)\<rparr>"

text \<open>
  An 8 GiB arena after one create that moves the frontier to unit \<open>2 ^ 29\<close>, the first
  unit whose byte offset no longer fits in 32 bits.
\<close>

definition arena8g :: bpa_heap where
  "arena8g = fst (bpa_create (the (bpa_init buf0 (2 ^ 33))) (2 ^ 32 - 262176))"

lemmas bpa_eval = bpa_init_def bpa_create_def alloc_slot_def slice_units_def slot_index_def
  MAX_SLOT_def HEAP_SLICE_def SLICE_ID_def slice_sz_def slice_id_def slice_ref_def
  bpa_get_ptr_def bpa_grab_def bpa_release_def bpa_get_id_def Let_def

lemma init_1M: "bpa_init buf0 1048576 = Some arena0"
  by (simp add: bpa_eval buf0_def arena0_def)

lemma arena0_wf: "heap_wf arena0" and arena0_slices: "slices arena0 = Some []"
  by (simp_all add: heap_wf_def slices_def cursor_ok_def slots_ok_def placeholders_dead_def
        arena0_def buf0_def)

lemma create1: "bpa_create arena0 10000 = (arena1, 1)"
proof -
  have "snd (bpa_create arena0 10000) = 1"
    by (simp add: bpa_eval arena0_def buf0_def)
  then show ?thesis by (simp add: arena1_def prod_eq_iff)
qed

lemma arena1_wf: "heap_wf arena1" and arena1_slices: "slices arena1 = Some [32770]"
  using bpa_create_success_facts(1,11) [OF arena0_wf _ create1] arena0_slices
  by (simp_all add: arena0_def)

lemma arena1_get: "bpa_get_ptr arena1 1 = Some 262168"
  by (simp add: bpa_eval arena1_def arena0_def buf0_def)

lemma arena1_ref: "slice_ref (heap_mem arena1) 262160 = 0"
  by (simp add: bpa_eval arena1_def arena0_def buf0_def)

lemma arena1_grab:
  "bpa_grab arena1 1 = (arena1\<lparr>heap_mem := (heap_mem arena1)(262160 := 1)\<rparr>, Some 262168)"
  using arena1_get arena1_ref by (simp add: grab_via_get_ptr)

lemma arena1p_wf: "heap_wf arena1p" and arena1p_get: "bpa_get_ptr arena1p 1 = Some 262168"
proof -
  have "obj_id (heap_mem arena1) 32770 \<noteq> 0"
    by (simp add: bpa_eval arena1_def arena0_def buf0_def)
  then show "heap_wf arena1p" "bpa_get_ptr arena1p 1 = Some 262168"
    using ref_write_resolution(1,3) [OF arena1_wf arena1_slices] arena1_get
    by (simp_all add: arena1p_def)
qed

lemma arena1_idle: "heap_collect arena1 = 0" and arena1p_idle: "heap_collect arena1p = 0"
  by (simp_all add: bpa_eval arena1p_def arena1_def arena0_def buf0_def)

lemma arena1p_loop:
  "collect_loop (arena1p\<lparr>heap_collect := 32770\<rparr>) 32770 32770 0 = Some arena1p"
proof -
  have m: "heap_mem arena1p 262164 = 1252" "heap_mem arena1p 262160 = 1"
    by (simp_all add: bpa_eval arena1p_def arena1_def arena0_def buf0_def)
  have o: "heap_offset arena1p = 34022"
    by (simp add: bpa_eval arena1p_def arena1_def arena0_def buf0_def)
  show ?thesis
    apply (subst collect_loop.simps)
    apply (simp add: o m HEAP_SLICE_def slice_defs word_sless_alt)
    apply (subst collect_loop.simps)
    apply (simp add: o arena1p_def arena1_def bpa_eval arena0_def buf0_def)
    done
qed

lemma arena1p_increment: "collect (arena1p\<lparr>heap_collect := 32770\<rparr>) = Some (Inr arena1p)"
  by (simp add: collect_def arena1p_loop)

lemma arena1p_collect: "bpa_collect arena1p 0 = Some (Inr arena1p)"
proof -
  have "collect_until_idle (arena1p\<lparr>heap_collect := 32770\<rparr>) = Some (Inr arena1p)"
    by (subst collect_until_idle.simps) (simp add: arena1p_increment arena1p_idle)
  then show ?thesis by (simp add: bpa_collect_def arena1p_idle)
qed

lemma arena1p_active_wf: "heap_wf (arena1p\<lparr>heap_collect := 32770\<rparr>)"
  using cycle_start(1) [OF arena1p_wf arena1p_idle] by simp

lemma create_paused: "bpa_create (arena1p\<lparr>heap_collect := 32770\<rparr>) 8 = (arena2, 2)"
proof -
  have "snd (bpa_create (arena1p\<lparr>heap_collect := 32770\<rparr>) 8) = 2"
    by (simp add: bpa_eval arena1p_def arena1_def arena0_def buf0_def)
  then show ?thesis by (simp add: arena2_def prod_eq_iff)
qed

section \<open>Creation and resolution\<close>

text \<open>
  C1 A create that returns a nonzero handle returns one that did not resolve before, now
  resolves to the payload of the slice appended at the old frontier, and changes the
  resolution of no other handle.
\<close>

theorem bpa_create_fresh:
  assumes wf: "heap_wf H" and req: "unat sz < 2 ^ 32"
    and run: "bpa_create H sz = (H', h)" and ok: "h \<noteq> 0"
  shows "bpa_get_ptr H h = None \<and>
         bpa_get_ptr H' h = Some (8 * unat (heap_offset H) + 8) \<and>
         (\<forall>h'. h' \<noteq> h \<longrightarrow> bpa_get_ptr H' h' = bpa_get_ptr H h')"
proof -
  obtain os where os: "slices H = Some os" using wf by (auto elim: heap_wfD)
  note F = bpa_create_success_facts [OF wf req run ok]
  let ?q = "unat (heap_offset H)" and ?m = "heap_mem H" and ?m' = "heap_mem H'"
  have os': "slices H' = Some (os @ [?q])" using F(1) os by simp
  have same: "\<And>p. p \<in> set os \<Longrightarrow> obj_id ?m' p = obj_id ?m p"
    using F(8) os by simp
  obtain k where "alloc_slot_loop MAX_SLOT (heap_slot H) (heap_cid H) = (h, Some k)"
    using bpa_create_cases [OF run] ok by blast
  then have "heap_slot H (slot_index h) = 0"
    using alloc_slot_loop_Some by blast
  then have fresh: "bpa_get_ptr H h = None"
    by (simp add: bpa_get_ptr_def)
  have findcong: "find (\<lambda>p. obj_id ?m' p = u) os = find (\<lambda>p. obj_id ?m p = u) os" for u
    using same by (simp cong: find_cong)
  have look: "bpa_get_ptr H' u =
      (if u = 0 then None
       else case find (\<lambda>p. obj_id ?m p = u) os of
              None \<Rightarrow> (if obj_id ?m' ?q = u then Some (8 * ?q + 8) else None)
            | Some p \<Rightarrow> Some (8 * p + 8))" for u
    using bpa_get_ptr_refines [OF F(11) os'] findcong
    by (simp add: find_slice_def find_append split: option.split)
  have old: "bpa_get_ptr H u = (if u = 0 then None
      else map_option (\<lambda>p. 8 * p + 8) (find (\<lambda>p. obj_id ?m p = u) os))" for u
    using bpa_get_ptr_refines [OF wf os] by (simp add: find_slice_def)
  have "find (\<lambda>p. obj_id ?m p = h) os = None"
    using fresh old [of h] ok by (simp split: if_splits)
  then have "bpa_get_ptr H' h = Some (8 * ?q + 8)"
    using look [of h] ok F(3) by simp
  moreover have "bpa_get_ptr H' h' = bpa_get_ptr H h'" if "h' \<noteq> h" for h'
    using look [of h'] old [of h'] that F(3) by (simp split: option.split)
  ultimately show ?thesis using fresh by blast
qed

text \<open>Witness of C1: the driver's first create on the fresh 1 MiB arena.\<close>

theorem bpa_create_fresh_witness:
  "bpa_get_ptr arena0 1 = None \<and> bpa_get_ptr arena1 1 = Some 262168"
  using bpa_create_fresh [OF arena0_wf _ create1] by (simp add: arena0_def)

section \<open>Witnesses of the component properties\<close>

theorem bpa_init_wf_witness:
  "heap_slot buf0 = (\<lambda>_. 0) \<and> heap_wf arena0 \<and> slices arena0 = Some [] \<and> heap_collect arena0 = 0"
  using bpa_init_wf [OF init_1M] by (simp add: buf0_def)

theorem bpa_create_wf_witness: "heap_wf (fst (bpa_create arena0 10000))"
  using bpa_create_wf [OF arena0_wf] by simp

theorem bpa_create_out_of_space_witness: "bpa_create arena0 1048576 = (arena0, 0)"
  using bpa_create_out_of_space [OF arena0_wf] by (simp add: arena0_def buf0_def)

theorem bpa_get_ptr_refines_witness:
  "bpa_get_ptr arena1 1 = find_slice (heap_mem arena1) [32770] 1 \<and>
   find_slice (heap_mem arena1) [32770] 1 = Some 262168"
  using bpa_get_ptr_refines [OF arena1_wf arena1_slices] arena1_get by simp

theorem bpa_get_id_get_ptr_witness: "bpa_get_id arena1 262168 = Inr 1"
  using bpa_get_id_get_ptr [OF arena1_wf arena1_get] .

theorem bpa_grab_release_witness: "bpa_release (fst (bpa_grab arena1 1)) 1 = Inr arena1"
  using bpa_grab_release [OF arena1_wf arena1_get] arena1_ref by simp

theorem bpa_grab_wf_witness: "heap_wf (fst (bpa_grab arena1 1))"
  using bpa_grab_wf [OF arena1_wf] .

theorem bpa_release_wf_witness:
  "heap_wf (arena1\<lparr>heap_mem := (heap_mem arena1)(262160 := 1, 262160 := 0)\<rparr>)"
proof -
  let ?A = "arena1\<lparr>heap_mem := (heap_mem arena1)(8 * 32770 := 1)\<rparr>"
  have "obj_id (heap_mem arena1) 32770 \<noteq> 0"
    by (simp add: bpa_eval arena1_def arena0_def buf0_def)
  then have wf: "heap_wf ?A"
    using ref_write_resolution(1) [OF arena1_wf arena1_slices] by simp
  have get: "bpa_get_ptr ?A 1 = Some 262168"
    using ref_write_resolution(3) [OF arena1_wf arena1_slices] arena1_get
      \<open>obj_id (heap_mem arena1) 32770 \<noteq> 0\<close> by simp
  have "bpa_release ?A 1 = Inr (arena1\<lparr>heap_mem := (heap_mem arena1)(262160 := 1, 262160 := 0)\<rparr>)"
    using get by (simp add: release_via_get_ptr slice_ref_def)
  from bpa_release_wf [OF wf this] show ?thesis .
qed

theorem bpa_get_ptr_inj_witness: "bpa_get_ptr arena1 1 = Some 262168 \<and> (1 :: u32) = 1"
  using bpa_get_ptr_inj [OF arena1_wf arena1_get arena1_get] arena1_get by simp

section \<open>Findings\<close>

text \<open>
  C25 A request whose reserved size truncates to \<open>0\<close> units (\<open>2 ^ 35 - 19\<close> bytes) is not
  refused on any well-formed arena: when a slot is free the create returns a handle,
  leaves the frontier where it was, and its id store (\<^verbatim>\<open>SLICE_ID\<close> of a slice of size
  \<open>0\<close>, 4 bytes below the frontier) overwrites the id of the last slice, so that slice's
  handle, which resolved before, no longer resolves.
\<close>

theorem bpa_create_zero_units_clobbers:
  assumes wf: "heap_wf H" and os: "slices H = Some (xs @ [q])" and u: "obj_id (heap_mem H) q \<noteq> 0"
    and run: "bpa_create H (2 ^ 35 - 19) = (H', h)" and ok: "h \<noteq> 0"
  shows "heap_offset H' = heap_offset H \<and> bpa_get_ptr H (obj_id (heap_mem H) q) = Some (8 * q + 8) \<and>
         bpa_get_ptr H' (obj_id (heap_mem H) q) = None"
proof -
  let ?m = "heap_mem H" and ?O = "unat (heap_offset H)" and ?u = "obj_id (heap_mem H) q"
  have su: "slice_units (2 ^ 35 - 19) = 0" by (simp add: slice_units_def ALIGN_SIZE_def)
  obtain k where alloc: "alloc_slot_loop MAX_SLOT (heap_slot H) (heap_cid H) = (h, Some k)"
    and H': "H' = H\<lparr>heap_cid := h, heap_slot := (heap_slot H)(k := heap_offset H),
                     heap_offset := heap_offset H,
                     heap_mem := (let s = HEAP_SLICE (heap_offset H);
                                      m1 = (heap_mem H)(s := 0, s + 4 := 0)
                                  in m1(SLICE_ID m1 s := h))\<rparr>"
    using bpa_create_cases [OF run] ok su by auto
  have qin: "q \<in> set (xs @ [q])" by simp
  note B = slices_bounds [OF wf os qin]
  have last: "q + obj_sz ?m q = ?O" using chain_last os by (simp add: slices_def)
  have O29: "?O < 2 ^ 29" using B(3,5) last by simp
  have s: "HEAP_SLICE (heap_offset H) = 8 * ?O" using O29 by (rule HEAP_SLICE_nowrap)
  let ?m1 = "?m(8 * ?O := 0, 8 * ?O + 4 := 0)"
  have sid: "SLICE_ID ?m1 (8 * ?O) = 8 * ?O - 4" by (simp add: SLICE_ID_def slice_sz_def)
  have mem': "heap_mem H' = ?m1(8 * ?O - 4 := h)" using H' s sid by (simp add: Let_def)
  have far: "8 * q + 4 < 8 * ?O - 4" "q \<noteq> ?O" using last B(2) by simp_all
  have szq: "slice_sz (heap_mem H') (8 * q) = slice_sz ?m (8 * q)"
    using mem' far by (simp add: slice_sz_def)
  have "SLICE_ID (heap_mem H') (8 * q) = 8 * ?O - 4"
    using szq SLICE_ID_unit [of ?m q] B(5) last by (simp add: SLICE_ID_def)
  then have idq: "obj_id (heap_mem H') q = h" using mem' by (simp add: slice_id_def)
  have free: "slot_index h = k" "heap_slot H k = 0" using alloc_slot_loop_Some [OF alloc] by simp_all
  have "heap_slot H (slot_index ?u) = of_nat q" by (rule slot_of_slice [OF wf os qin u])
  moreover have "(of_nat q :: u32) \<noteq> 0" using B(1,4) of_nat_u32_inj [of q 0] by simp
  ultimately have ku: "slot_index ?u \<noteq> k" and slotq: "heap_slot H (slot_index ?u) = of_nat q"
    using free by auto
  have "?u \<noteq> h" using ku free(1) by auto
  moreover have "HEAP_SLICE (of_nat q) = 8 * q"
    using B(4) by (simp add: HEAP_SLICE_nowrap unat_of_nat_u32)
  ultimately have "bpa_get_ptr H' ?u = None"
    using H' ku slotq idq by (simp add: bpa_get_ptr_def Let_def slice_id_def)
  moreover have "bpa_get_ptr H ?u = Some (8 * q + 8)" by (rule bpa_get_ptr_of_slice [OF wf os qin u])
  ultimately show ?thesis using H' by simp
qed

text \<open>
  C26 \<^verbatim>\<open>bpa_init\<close> accepts buffers up to \<open>2 ^ 35\<close> bytes, but \<^verbatim>\<open>HEAP_SLICE\<close> multiplies
  the unit offset by 8 in 32 bits. For every arena whose frontier is at a unit \<open>o\<close> with
  \<open>2 ^ 29 \<le> o < 2 ^ 29 + HEAP_HEADER_SIZE\<close>, a successful create stores the new slice's
  reference count and size at byte \<open>8 * o - 2 ^ 32\<close>, inside the bytes of
  \<^verbatim>\<open>struct bpa_heap\<close> at the start of the buffer.
\<close>

theorem bpa_create_wraps_into_header:
  assumes run: "bpa_create H sz = (H', h)" and ok: "h \<noteq> 0" and req: "unat sz < 2 ^ 31"
    and lo: "2 ^ 29 \<le> unat (heap_offset H)" and hi: "unat (heap_offset H) < 2 ^ 29 + HEAP_HEADER_SIZE"
  shows "HEAP_SLICE (heap_offset H) = 8 * unat (heap_offset H) - 2 ^ 32 \<and>
         HEAP_SLICE (heap_offset H) < 8 * HEAP_HEADER_SIZE \<and>
         heap_mem H' (HEAP_SLICE (heap_offset H)) = 0 \<and>
         heap_mem H' (HEAP_SLICE (heap_offset H) + 4) = slice_units sz"
proof -
  let ?O = "unat (heap_offset H)" and ?r = "slice_units sz"
  have "unat (heap_offset H * 8) = (?O * 8) mod 2 ^ 32" by (simp add: unat_word_ariths)
  moreover have "(?O * 8) mod 2 ^ 32 = 8 * ?O - 2 ^ 32"
    using lo hi by (simp add: le_mod_geq)
  ultimately have s: "HEAP_SLICE (heap_offset H) = 8 * ?O - 2 ^ 32" by (simp add: HEAP_SLICE_def)
  have r: "unat ?r = (unat sz + 19) div 8" "2 \<le> unat ?r" "unat ?r < 2 ^ 29"
    using req slice_units_nowrap [of sz] by simp_all
  let ?s = "HEAP_SLICE (heap_offset H)"
  let ?m1 = "(heap_mem H)(?s := 0, ?s + 4 := ?r)"
  have "SLICE_ID ?m1 ?s = ?s + 8 * unat ?r - 4"
    using r(3) by (simp add: SLICE_ID_def slice_sz_def unat_times8)
  then have far: "?s + 4 < SLICE_ID ?m1 ?s" using r(2) by simp
  obtain k where "heap_mem H' = ?m1(SLICE_ID ?m1 ?s := h)"
    using bpa_create_cases [OF run] ok by (auto simp: Let_def)
  then have "heap_mem H' ?s = 0" "heap_mem H' (?s + 4) = ?r" using far by simp_all
  with s lo hi show ?thesis by simp
qed

text \<open>
  \<^verbatim>\<open>bpa_init\<close> does not clear the handle table: a slot entry left in the buffer
  survives, so a handle no create returned resolves, and the arena is not well-formed.
\<close>

theorem bpa_init_keeps_stale_slots:
  "bpa_init buf_stale 1048576 = Some (arena0\<lparr>heap_slot := heap_slot buf_stale,
                                               heap_mem := heap_mem buf_stale\<rparr>) \<and>
   bpa_get_ptr (arena0\<lparr>heap_slot := heap_slot buf_stale, heap_mem := heap_mem buf_stale\<rparr>) 1
     = Some 262168 \<and>
   \<not> heap_wf (arena0\<lparr>heap_slot := heap_slot buf_stale, heap_mem := heap_mem buf_stale\<rparr>)"
proof -
  have "\<not> slots_ok ((\<lambda>_. 0)(1 := 32770)) ((\<lambda>_. 0)(262156 := 1)) []"
  proof
    assume "slots_ok ((\<lambda>_. 0)(1 := 32770)) ((\<lambda>_. 0)(262156 := 1)) []"
    then have "((\<lambda>_. 0)(1 := 32770)) (1 :: u16) \<noteq> (0 :: u32) \<longrightarrow>
               unat (((\<lambda>_. 0)(1 := 32770)) (1 :: u16) :: u32) \<in> set ([] :: nat list)"
      unfolding slots_ok_def by blast
    then show False by simp
  qed
  then show ?thesis
    by (simp add: bpa_eval buf_stale_def arena0_def buf0_def heap_wf_def slices_def)
qed

section \<open>Witnesses of the compactor properties\<close>

theorem bpa_collect_terminates_witness:
  "\<exists>H'. bpa_collect arena1 1 = Some (Inr H') \<and> heap_wf H' \<and> live_view H' = live_view arena1"
  using bpa_collect_terminates [OF arena1_wf] .

theorem bpa_collect_full_filters_witness:
  "heap_view arena1p = map_option (filter pinned) (heap_view arena1p)"
  using bpa_collect_full_filters [OF arena1p_wf] arena1p_collect by auto

theorem collect_progress_witness:
  "heap_wf arena1p \<and> (heap_collect arena1p = 0 \<or> pending arena1p < pending (arena1p\<lparr>heap_collect := 32770\<rparr>))"
  using collect_progress [OF arena1p_active_wf] arena1p_increment by auto

theorem cycle_ends_within_pending_witness:
  "\<exists>n \<le> pending (arena1p\<lparr>heap_collect := 32770\<rparr>). \<exists>H'.
     collect_calls (replicate (Suc n) 1) (arena1p\<lparr>heap_collect := 32770\<rparr>) = Some (Inr H') \<and>
     heap_collect H' = 0"
  using cycle_ends_within_pending [OF arena1p_active_wf] by simp

theorem incremental_equals_full_witness:
  "\<exists>H' H''. collect_calls [1, 1] arena1 = Some (Inr H') \<and> bpa_collect arena1 0 = Some (Inr H'') \<and>
            (heap_collect H' = 0 \<longrightarrow> heap_view H' = heap_view H'')"
  by (rule incremental_equals_full [OF arena1_wf arena1_idle]) simp

theorem bpa_collect_keeps_pinned_witness:
  "\<exists>p'. bpa_get_ptr arena1p 1 = Some p' \<and>
        obj_view (heap_mem arena1p) ((p' - 8) div 8) = obj_view (heap_mem arena1p) 32770"
proof -
  have "slice_ref (heap_mem arena1p) (262168 - 8) \<noteq> 0"
    by (simp add: arena1p_def slice_ref_def)
  from bpa_collect_keeps_pinned [OF arena1p_wf arena1p_collect arena1p_get this] show ?thesis
    by simp
qed

theorem bpa_collect_reclaims_witness:
  "\<exists>p. bpa_get_ptr arena1p 1 = Some p \<and> slice_ref (heap_mem arena1p) (p - 8) \<noteq> 0"
  using bpa_collect_reclaims [OF arena1p_wf arena1p_collect, of 1] arena1p_get by simp

theorem paused_create_swept_witness:
  "bpa_get_ptr arena2 2 \<noteq> None \<and>
   (\<exists>H2. collect_until_idle arena2 = Some (Inr H2) \<and> bpa_get_ptr H2 2 = None)"
  using paused_create_swept [OF arena1p_active_wf _ _ create_paused] by simp

section \<open>Witnesses of the dump properties\<close>

lemma arena1_dump_header: "heap_sz arena1 * 8 div 1024 = 1024" "heap_offset arena1 * 8 = 272176"
  by (simp_all add: bpa_eval arena1_def arena0_def buf0_def)

theorem bpa_dump_slices_witness:
  "bpa_dump arena1 = Some (DumpHeader 1024 272176 # dump_slots arena1 @ [slice_line (heap_mem arena1) 32770])"
  using bpa_dump_slices [OF arena1_wf arena1_slices] by (simp add: arena1_dump_header)

theorem bpa_dump_consistent_witness:
  "\<exists>ls. bpa_dump arena1 = Some ls \<and>
     (\<forall>i pt. DumpSlot i pt \<in> set ls \<longleftrightarrow>
             (\<exists>uid r s. DumpSlice uid pt r s \<in> set ls \<and> uid \<noteq> 0 \<and> unat (slot_index uid) = i))"
  using bpa_dump_consistent [OF arena1_wf] .

section \<open>Witnesses of the driver properties\<close>

lemma arena1_payload_fits: "100 + 12 \<le> 8 * obj_sz (heap_mem arena1) ((262168 - 8) div 8)"
  by (simp add: bpa_eval arena1_def arena0_def buf0_def)

theorem set_id_dump_id_witness:
  "dump_id (arena1\<lparr>heap_mem := memset (heap_mem arena1) 262168 7 100\<rparr>) 1 100 =
   [OutId 1, OutBytes (replicate 100 7)]"
proof -
  have "set_id arena1 1 7 100 = Inr (arena1\<lparr>heap_mem := memset (heap_mem arena1) 262168 7 100\<rparr>)"
    by (simp add: set_id_def arena1_get)
  from set_id_dump_id [OF arena1_wf arena1_get arena1_payload_fits this order_refl]
  show ?thesis by simp
qed

theorem testbpa_main_trace_witness:
  "testbpa_main buf0 = Some (Inr
    [OutDump [DumpHeader 1024 262160],
     OutId 1, OutBytes (replicate 100 1), OutId 2, OutBytes (replicate 100 2),
     OutId 3, OutBytes (replicate 100 3), OutId 65537, OutNotExist,
     OutDump [DumpHeader 1024 326224,
       DumpSlot 1 32770, DumpSlot 2 34022, DumpSlot 3 36524, DumpSlot 4 40276,
       DumpSlice 1 32770 0 10016, DumpSlice 2 34022 0 20016, DumpSlice 3 36524 0 30016,
       DumpSlice 4 40276 0 4016],
     OutDump [DumpHeader 1024 326224,
       DumpSlot 1 32770, DumpSlot 3 34022, DumpSlot 4 40276,
       DumpSlice 1 32770 1 10016, DumpSlice 3 34022 1 30016, DumpSlice 0 37774 0 20016,
       DumpSlice 4 40276 0 4016],
     OutId 1, OutBytes (replicate 100 1), OutId 2, OutNotExist,
     OutId 3, OutBytes (replicate 100 3),
     OutDump [DumpHeader 1024 292176, DumpSlot 3 32770, DumpSlice 3 32770 1 30016],
     OutDump [DumpHeader 1024 262160]])"
  by (rule testbpa_main_trace) (simp add: buf0_def)

section \<open>Witnesses of the findings\<close>

lemma arena1max_wf: "heap_wf arena1max" and arena1max_get: "bpa_get_ptr arena1max 1 = Some 262168"
proof -
  have "obj_id (heap_mem arena1) 32770 \<noteq> 0"
    by (simp add: bpa_eval arena1_def arena0_def buf0_def)
  then show "heap_wf arena1max" "bpa_get_ptr arena1max 1 = Some 262168"
    using ref_write_resolution(1,3) [OF arena1_wf arena1_slices] arena1_get
    by (simp_all add: arena1max_def)
qed

theorem bpa_grab_overflow_unreleasable_witness:
  "bpa_get_ptr (fst (bpa_grab arena1max 1)) 1 = Some 262168 \<and>
   bpa_release (fst (bpa_grab arena1max 1)) 1 = Inl ReleaseUnpinned"
  using bpa_grab_overflow_unreleasable [OF arena1max_wf arena1max_get]
  by (simp add: arena1max_def slice_ref_def)

theorem bpa_create_ignores_high_bits_witness: "bpa_create arena0 (10000 + 2 ^ 35) = (arena1, 1)"
  using bpa_create_ignores_high_bits [of 10000 arena0] create1 by simp

lemma create_zero_units:
  "bpa_create arena1 (2 ^ 35 - 19) = (fst (bpa_create arena1 (2 ^ 35 - 19)), 2)"
proof -
  have "snd (bpa_create arena1 (2 ^ 35 - 19)) = 2"
    by (simp add: bpa_eval arena1_def arena0_def buf0_def)
  then show ?thesis by (simp add: prod_eq_iff)
qed

theorem bpa_create_zero_units_clobbers_witness:
  "heap_offset (fst (bpa_create arena1 (2 ^ 35 - 19))) = heap_offset arena1 \<and>
   bpa_get_ptr arena1 1 = Some 262168 \<and> bpa_get_ptr (fst (bpa_create arena1 (2 ^ 35 - 19))) 1 = None"
proof -
  have "slices arena1 = Some ([] @ [32770])" "obj_id (heap_mem arena1) 32770 = 1"
    using arena1_slices by (simp_all add: bpa_eval arena1_def arena0_def buf0_def)
  from bpa_create_zero_units_clobbers [OF arena1_wf this(1) _ create_zero_units] this(2)
  show ?thesis by simp
qed

lemma arena8g_frontier: "heap_offset arena8g = 2 ^ 29"
  by (simp add: bpa_eval arena8g_def buf0_def)

lemma create_wrapped:
  "bpa_create arena8g 16 = (fst (bpa_create arena8g 16), snd (bpa_create arena8g 16))"
  "snd (bpa_create arena8g 16) \<noteq> 0"
  by (simp_all add: bpa_eval arena8g_def buf0_def)

theorem bpa_create_wraps_into_header_witness:
  "HEAP_SLICE (heap_offset arena8g) = 0 \<and>
   heap_mem (fst (bpa_create arena8g 16)) 0 = 0 \<and> heap_mem (fst (bpa_create arena8g 16)) 4 = 4"
  using bpa_create_wraps_into_header [OF create_wrapped] arena8g_frontier
  by (simp add: slice_units_def HEAP_SLICE_def)

end
